theory Spec2Isabelle
  imports Complex_Main "HOL-Library.Word"
begin

section \<open>GLSL built-ins used by the shaders\<close>

text \<open>
  The fragment shaders of \<^verbatim>\<open>shaders.ts\<close> compute on GLSL \<^verbatim>\<open>highp float\<close>.
  They are embedded over the reals: every operation is the exact one, without the
  rounding of the GPU. Vectors are datatypes with one selector per component; a swizzle
  such as \<^verbatim>\<open>c.bg\<close> is written out component by component.
\<close>

datatype vec3 = Vec3 (vx: real) (vy: real) (vz: real)

datatype vec4 = Vec4 (qx: real) (qy: real) (qz: real) (qw: real)

text \<open>\<^verbatim>\<open>step(edge, x)\<close> is 0.0 if \<^verbatim>\<open>x < edge\<close> and 1.0 otherwise.\<close>

definition step_gl :: "real \<Rightarrow> real \<Rightarrow> real" where
  "step_gl edge x = (if x < edge then 0 else 1)"

text \<open>\<^verbatim>\<open>mix(a, b, t)\<close> is \<^verbatim>\<open>a * (1 - t) + b * t\<close>, component-wise.\<close>

definition mix_gl :: "real \<Rightarrow> real \<Rightarrow> real \<Rightarrow> real" where
  "mix_gl a b t = a * (1 - t) + b * t"

definition mix4 :: "vec4 \<Rightarrow> vec4 \<Rightarrow> real \<Rightarrow> vec4" where
  "mix4 a b t = Vec4 (mix_gl (qx a) (qx b) t) (mix_gl (qy a) (qy b) t)
                     (mix_gl (qz a) (qz b) t) (mix_gl (qw a) (qw b) t)"

definition clamp_gl :: "real \<Rightarrow> real \<Rightarrow> real \<Rightarrow> real" where
  "clamp_gl x lo hi = min (max x lo) hi"

text \<open>
  \<^verbatim>\<open>smoothstep(edge0, edge1, x)\<close>: \<^verbatim>\<open>t = clamp((x - edge0) / (edge1 - edge0), 0.0, 1.0);
  return t * t * (3.0 - 2.0 * t)\<close>. GLSL leaves the result undefined when
  \<^verbatim>\<open>edge0 >= edge1\<close>; the model then computes the same formula with HOL's division.
\<close>

definition smoothstep :: "real \<Rightarrow> real \<Rightarrow> real \<Rightarrow> real" where
  "smoothstep edge0 edge1 x =
     (let t = clamp_gl ((x - edge0) / (edge1 - edge0)) 0 1 in t * t * (3 - 2 * t))"


section \<open>Key settings (\<^verbatim>\<open>chromaKey.ts\<close>)\<close>

record ChromaKeySettings =
  hueTarget :: real
  hueRange :: real
  satMin :: real
  valMin :: real
  valMax :: real
  smoothness :: real
  spillSuppression :: real

definition GREEN_SCREEN_SETTINGS :: ChromaKeySettings where
  "GREEN_SCREEN_SETTINGS =
     \<lparr> hueTarget = 120, hueRange = 80, satMin = 15 / 100, valMin = 1 / 10,
       valMax = 98 / 100, smoothness = 12 / 100, spillSuppression = 7 / 10 \<rparr>"

definition BLUE_SCREEN_SETTINGS :: ChromaKeySettings where
  "BLUE_SCREEN_SETTINGS =
     \<lparr> hueTarget = 240, hueRange = 80, satMin = 15 / 100, valMin = 1 / 10,
       valMax = 98 / 100, smoothness = 12 / 100, spillSuppression = 7 / 10 \<rparr>"

text \<open>
  The ranges the specification's data model gives for a valid Key Settings value
  (the code itself never checks them).
\<close>

definition valid_settings :: "ChromaKeySettings \<Rightarrow> bool" where
  "valid_settings s \<longleftrightarrow>
     0 \<le> hueTarget s \<and> hueTarget s < 360 \<and>
     0 < hueRange s \<and> hueRange s \<le> 180 \<and>
     0 \<le> satMin s \<and> satMin s \<le> 1 \<and>
     0 \<le> valMin s \<and> valMin s \<le> 1 \<and>
     0 \<le> valMax s \<and> valMax s \<le> 1 \<and> valMin s \<le> valMax s \<and>
     0 \<le> smoothness s \<and> smoothness s \<le> 1 \<and>
     0 \<le> spillSuppression s \<and> spillSuppression s \<le> 1"

definition unit_color :: "vec3 \<Rightarrow> bool" where
  "unit_color c \<longleftrightarrow> 0 \<le> vx c \<and> vx c \<le> 1 \<and> 0 \<le> vy c \<and> vy c \<le> 1 \<and> 0 \<le> vz c \<and> vz c \<le> 1"


section \<open>The fragment shaders (\<^verbatim>\<open>shaders.ts\<close>)\<close>

text \<open>
  \<^verbatim>\<open>rgb2hsv\<close> is declared twice, once in each fragment shader, with the same body;
  one definition embeds both.
\<close>

definition rgb2hsv :: "vec3 \<Rightarrow> vec3" where
  "rgb2hsv c =
     (let K = Vec4 0 (- 1 / 3) (2 / 3) (- 1);
          p = mix4 (Vec4 (vz c) (vy c) (qw K) (qz K)) (Vec4 (vy c) (vz c) (qx K) (qy K))
                   (step_gl (vz c) (vy c));
          q = mix4 (Vec4 (qx p) (qy p) (qw p) (vx c)) (Vec4 (vx c) (qy p) (qz p) (qx p))
                   (step_gl (qx p) (vx c));
          d = qx q - min (qw q) (qy q);
          e = 1 / 10 ^ 10
      in Vec3 (\<bar>qz q + (qw q - qy q) / (6 * d + e)\<bar>) (d / (qx q + e)) (qx q))"

text \<open>
  The body of \<^verbatim>\<open>main\<close> of \<^verbatim>\<open>maskFragmentShader\<close>, one definition for each of its
  locals; \<open>color\<close> is the texture sample \<^verbatim>\<open>texture2D(u_texture, v_texCoord)\<close>.
\<close>

definition mask_hsv :: "vec4 \<Rightarrow> vec3" where
  "mask_hsv color = rgb2hsv (Vec3 (qx color) (qy color) (qz color))"

definition mask_hueDiff :: "ChromaKeySettings \<Rightarrow> vec4 \<Rightarrow> real" where
  "mask_hueDiff s color =
     (let hue = vx (mask_hsv color) * 360;
          hueDiff = \<bar>hue - hueTarget s\<bar>
      in if hueDiff > 180 then 360 - hueDiff else hueDiff)"

definition mask_hueMatch :: "ChromaKeySettings \<Rightarrow> vec4 \<Rightarrow> real" where
  "mask_hueMatch s color =
     1 - smoothstep (hueRange s * (1 / 2)) (hueRange s) (mask_hueDiff s color)"

definition mask_satMatch :: "ChromaKeySettings \<Rightarrow> vec4 \<Rightarrow> real" where
  "mask_satMatch s color =
     (let sat = vy (mask_hsv color) in smoothstep (satMin s * (1 / 2)) (satMin s) sat)"

definition mask_valMatch :: "ChromaKeySettings \<Rightarrow> vec4 \<Rightarrow> real" where
  "mask_valMatch s color =
     (let val = vz (mask_hsv color) in step_gl (valMin s) val * step_gl val (valMax s))"

definition mask_dominance :: "ChromaKeySettings \<Rightarrow> vec4 \<Rightarrow> real" where
  "mask_dominance s color =
     (if hueTarget s < 180
      then smoothstep 0 (1 / 10) (qy color - max (qx color) (qz color))
      else smoothstep 0 (1 / 10) (qz color - max (qx color) (qy color)))"

definition mask_keyStrength :: "ChromaKeySettings \<Rightarrow> vec4 \<Rightarrow> real" where
  "mask_keyStrength s color =
     mask_hueMatch s color * mask_satMatch s color * mask_valMatch s color * mask_dominance s color"

definition mask_alpha :: "ChromaKeySettings \<Rightarrow> vec4 \<Rightarrow> real" where
  "mask_alpha s color =
     1 - smoothstep (3 / 10 - smoothness s) (3 / 10 + smoothness s) (mask_keyStrength s color)"

text \<open>\<^verbatim>\<open>gl_FragColor = vec4(vec3(alpha), 1.0)\<close>.\<close>

definition maskFragmentShader :: "ChromaKeySettings \<Rightarrow> vec4 \<Rightarrow> vec4" where
  "maskFragmentShader s color =
     (let alpha = mask_alpha s color in Vec4 alpha alpha alpha 1)"

text \<open>\<^verbatim>\<open>suppressSpill(color, amount, isGreen)\<close> of \<^verbatim>\<open>blackBgFragmentShader\<close>.\<close>

definition suppressSpill :: "vec3 \<Rightarrow> real \<Rightarrow> bool \<Rightarrow> vec3" where
  "suppressSpill color amount isGreen =
     (if isGreen then
        (let avg = (vx color + vz color) * (1 / 2);
             excess = max 0 (vy color - avg);
             result_g = vy color - excess * amount;
             result_r = min 1 (vx color + excess * amount * (2 / 10));
             result_b = min 1 (vz color + excess * amount * (2 / 10))
         in Vec3 result_r result_g result_b)
      else
        (let avg = (vx color + vy color) * (1 / 2);
             excess = max 0 (vz color - avg);
             result_b = vz color - excess * amount;
             result_r = min 1 (vx color + excess * amount * (2 / 10));
             result_g = min 1 (vy color + excess * amount * (2 / 10))
         in Vec3 result_r result_g result_b))"

text \<open>
  The body of \<^verbatim>\<open>main\<close> of \<^verbatim>\<open>blackBgFragmentShader\<close>, which repeats the classification
  of the mask shader line by line before it suppresses the spill.
\<close>

definition blackBg_keyStrength :: "ChromaKeySettings \<Rightarrow> vec4 \<Rightarrow> real" where
  "blackBg_keyStrength s color =
     (let hsv = rgb2hsv (Vec3 (qx color) (qy color) (qz color));
          hue = vx hsv * 360;
          sat = vy hsv;
          val = vz hsv;
          hueDiff0 = \<bar>hue - hueTarget s\<bar>;
          hueDiff = (if hueDiff0 > 180 then 360 - hueDiff0 else hueDiff0);
          hueMatch = 1 - smoothstep (hueRange s * (1 / 2)) (hueRange s) hueDiff;
          satMatch = smoothstep (satMin s * (1 / 2)) (satMin s) sat;
          valMatch = step_gl (valMin s) val * step_gl val (valMax s);
          isGreen = (hueTarget s < 180);
          dominance =
            (if isGreen
             then smoothstep 0 (1 / 10) (qy color - max (qx color) (qz color))
             else smoothstep 0 (1 / 10) (qz color - max (qx color) (qy color)))
      in hueMatch * satMatch * valMatch * dominance)"

definition blackBg_alpha :: "ChromaKeySettings \<Rightarrow> vec4 \<Rightarrow> real" where
  "blackBg_alpha s color =
     1 - smoothstep (3 / 10 - smoothness s) (3 / 10 + smoothness s)
           (blackBg_keyStrength s color)"

definition blackBgFragmentShader :: "ChromaKeySettings \<Rightarrow> vec4 \<Rightarrow> vec4" where
  "blackBgFragmentShader s color =
     (let isGreen = (hueTarget s < 180);
          alpha = blackBg_alpha s color;
          spillStrength = spillSuppression s * (1 - alpha * (1 / 2));
          despilled = suppressSpill (Vec3 (qx color) (qy color) (qz color)) spillStrength isGreen;
          finalColor = Vec3 (vx despilled * alpha) (vy despilled * alpha) (vz despilled * alpha)
      in Vec4 (vx finalColor) (vy finalColor) (vz finalColor) 1)"


section \<open>Reference definitions of the per-pixel classification\<close>

text \<open>
  The alpha of a pixel as the specification words it (steps 2 to 8 of the Color-Space
  Classifier), over the hue, saturation and value that \<open>rgb2hsv\<close> returns.
\<close>

definition circular_hue_distance :: "real \<Rightarrow> real \<Rightarrow> real" where
  "circular_hue_distance h t = min \<bar>h - t\<bar> (360 - \<bar>h - t\<bar>)"

definition alpha_ref :: "ChromaKeySettings \<Rightarrow> vec4 \<Rightarrow> real" where
  "alpha_ref s color =
     (let red = qx color; green = qy color; blue = qz color;
          hsv = rgb2hsv (Vec3 red green blue);
          hue = vx hsv * 360; sat = vy hsv; val = vz hsv;
          hueDiff = circular_hue_distance hue (hueTarget s);
          hueMatch = 1 - smoothstep (hueRange s / 2) (hueRange s) hueDiff;
          satMatch = smoothstep (satMin s / 2) (satMin s) sat;
          valMatch = (if valMin s \<le> val \<and> val \<le> valMax s then 1 else 0);
          keyChannel = (if hueTarget s < 180 then green else blue);
          otherMax = (if hueTarget s < 180 then max red blue else max red green);
          dominance = smoothstep 0 (1 / 10) (keyChannel - otherMax);
          keyStrength = hueMatch * satMatch * valMatch * dominance
      in 1 - smoothstep (3 / 10 - smoothness s) (3 / 10 + smoothness s) keyStrength)"

text \<open>
  The composite pixel as the specification words it: the share handed to each of the two
  other channels is \<open>0.2\<close> of the excess.
\<close>

definition composite_ref :: "ChromaKeySettings \<Rightarrow> vec4 \<Rightarrow> vec4" where
  "composite_ref s color =
     (let red = qx color; green = qy color; blue = qz color;
          alpha = alpha_ref s color;
          spillStrength = spillSuppression s * (1 - alpha * (1 / 2))
      in if hueTarget s < 180 then
           (let excess = max 0 (green - (red + blue) / 2)
            in Vec4 ((red + (2 / 10) * excess) * alpha)
                    ((green - excess * spillStrength) * alpha)
                    ((blue + (2 / 10) * excess) * alpha) 1)
         else
           (let excess = max 0 (blue - (red + green) / 2)
            in Vec4 ((red + (2 / 10) * excess) * alpha)
                    ((green + (2 / 10) * excess) * alpha)
                    ((blue - excess * spillStrength) * alpha) 1))"

text \<open>
  The same with the share read as \<open>0.2\<close> of the amount taken from the key channel
  (\<open>excess \<times> spillStrength\<close>), added without a cap.
\<close>

definition composite_uncapped :: "ChromaKeySettings \<Rightarrow> vec4 \<Rightarrow> vec4" where
  "composite_uncapped s color =
     (let red = qx color; green = qy color; blue = qz color;
          alpha = alpha_ref s color;
          spillStrength = spillSuppression s * (1 - alpha * (1 / 2))
      in if hueTarget s < 180 then
           (let excess = max 0 (green - (red + blue) / 2)
            in Vec4 ((red + (2 / 10) * (excess * spillStrength)) * alpha)
                    ((green - excess * spillStrength) * alpha)
                    ((blue + (2 / 10) * (excess * spillStrength)) * alpha) 1)
         else
           (let excess = max 0 (blue - (red + green) / 2)
            in Vec4 ((red + (2 / 10) * (excess * spillStrength)) * alpha)
                    ((green + (2 / 10) * (excess * spillStrength)) * alpha)
                    ((blue - excess * spillStrength) * alpha) 1))"

text \<open>
  The composite pixel with the share of the two other channels as the code computes it:
  \<open>0.2\<close> of the amount taken from the key channel (\<open>excess \<times> spillStrength\<close>), the
  sum capped at 1.
\<close>

definition composite_capped :: "ChromaKeySettings \<Rightarrow> vec4 \<Rightarrow> vec4" where
  "composite_capped s color =
     (let red = qx color; green = qy color; blue = qz color;
          alpha = alpha_ref s color;
          spillStrength = spillSuppression s * (1 - alpha * (1 / 2))
      in if hueTarget s < 180 then
           (let excess = max 0 (green - (red + blue) / 2)
            in Vec4 (min 1 (red + (2 / 10) * (excess * spillStrength)) * alpha)
                    ((green - excess * spillStrength) * alpha)
                    (min 1 (blue + (2 / 10) * (excess * spillStrength)) * alpha) 1)
         else
           (let excess = max 0 (blue - (red + green) / 2)
            in Vec4 (min 1 (red + (2 / 10) * (excess * spillStrength)) * alpha)
                    (min 1 (green + (2 / 10) * (excess * spillStrength)) * alpha)
                    ((blue - excess * spillStrength) * alpha) 1))"


section \<open>Hue of a colour (\<^verbatim>\<open>colorUtils.ts\<close>)\<close>

datatype RGB = RGB (rgb_r: real) (rgb_g: real) (rgb_b: real)

datatype HSL = HSL (hsl_h: real) (hsl_s: real) (hsl_l: real)

text \<open>
  \<^verbatim>\<open>rgbToHsl\<close>: channels on the scale 0 to 255, hue returned in degrees. The
  \<^verbatim>\<open>switch (max)\<close> takes the first of the cases \<^verbatim>\<open>r\<close>, \<^verbatim>\<open>g\<close>, \<^verbatim>\<open>b\<close> that equals the maximum.
\<close>

definition rgbToHsl :: "RGB \<Rightarrow> HSL" where
  "rgbToHsl rgb =
     (let r = rgb_r rgb / 255; g = rgb_g rgb / 255; b = rgb_b rgb / 255;
          mx = max (max r g) b; mn = min (min r g) b;
          l = (mx + mn) / 2
      in if mx \<noteq> mn then
           (let d = mx - mn;
                s = (if l > 1 / 2 then d / (2 - mx - mn) else d / (mx + mn));
                h = (if mx = r then ((g - b) / d + (if g < b then 6 else 0)) / 6
                     else if mx = g then ((b - r) / d + 2) / 6
                     else ((r - g) / d + 4) / 6)
            in HSL (h * 360) (s * 100) (l * 100))
         else HSL (0 * 360) (0 * 100) (l * 100))"


section \<open>Frame buffers and the GPU pipeline (\<^verbatim>\<open>chromaKey.ts\<close>)\<close>

type_synonym byte = "8 word"

text \<open>
  \<^verbatim>\<open>ImageData\<close>: \<open>data\<close> is the flat \<^verbatim>\<open>Uint8ClampedArray\<close>, four bytes (R, G, B, A) per
  pixel, rows from the top. The browser only builds values with
  \<open>length data = width \<times> height \<times> 4\<close> and positive dimensions.
\<close>

record ImageData =
  width :: nat
  height :: nat
  data :: "byte list"

text \<open>The four bytes of the pixel in column \<open>x\<close> of row \<open>y\<close>.\<close>

definition pixel_at :: "ImageData \<Rightarrow> nat \<Rightarrow> nat \<Rightarrow> byte list" where
  "pixel_at img x y =
     (let off = 4 * (y * width img + x)
      in [data img ! off, data img ! (off + 1), data img ! (off + 2), data img ! (off + 3)])"

text \<open>A frame filled with one pixel value.\<close>

definition solid_frame :: "nat \<Rightarrow> nat \<Rightarrow> byte list \<Rightarrow> ImageData" where
  "solid_frame w h px = \<lparr> width = w, height = h, data = concat (replicate (w * h) px) \<rparr>"

text \<open>
  \<^verbatim>\<open>texImage2D(..., gl.RGBA, gl.UNSIGNED_BYTE, imageData)\<close>: a byte \<open>n\<close> is the
  normalised value \<open>n / 255\<close>; row 0 of the image is the row of the texture at \<open>t = 0\<close>.
\<close>

definition unorm8_to_float :: "byte \<Rightarrow> real" where
  "unorm8_to_float n = real (unat n) / 255"

definition texel :: "ImageData \<Rightarrow> nat \<Rightarrow> nat \<Rightarrow> vec4" where
  "texel img i j =
     (let off = 4 * (j * width img + i)
      in Vec4 (unorm8_to_float (data img ! off)) (unorm8_to_float (data img ! (off + 1)))
              (unorm8_to_float (data img ! (off + 2))) (unorm8_to_float (data img ! (off + 3))))"

text \<open>
  \<^verbatim>\<open>texture2D\<close> with the parameters the constructor sets: \<^verbatim>\<open>LINEAR\<close> filtering (the
  weighted mean of the four nearest texels) and \<^verbatim>\<open>CLAMP_TO_EDGE\<close> wrapping.
\<close>

definition clamp_index :: "int \<Rightarrow> nat \<Rightarrow> nat" where
  "clamp_index i n = nat (min (max i 0) (int n - 1))"

definition texture2D :: "ImageData \<Rightarrow> real \<times> real \<Rightarrow> vec4" where
  "texture2D img st =
     (let w = width img; h = height img;
          u = fst st * real w - 1 / 2; v = snd st * real h - 1 / 2;
          i0 = \<lfloor>u\<rfloor>; j0 = \<lfloor>v\<rfloor>;
          a = u - of_int i0; b = v - of_int j0;
          t00 = texel img (clamp_index i0 w) (clamp_index j0 h);
          t10 = texel img (clamp_index (i0 + 1) w) (clamp_index j0 h);
          t01 = texel img (clamp_index i0 w) (clamp_index (j0 + 1) h);
          t11 = texel img (clamp_index (i0 + 1) w) (clamp_index (j0 + 1) h)
      in mix4 (mix4 t00 t10 a) (mix4 t01 t11 a) b)"

text \<open>
  The full-screen quad of the two vertex buffers maps the window position \<open>(-1, -1)\<close>
  to the texture coordinate \<open>(0, 1)\<close> and \<open>(1, 1)\<close> to \<open>(1, 0)\<close>: the fragment in column
  \<open>x\<close> of row \<open>y\<close> (rows counted from the bottom of a \<open>W \<times> H\<close> viewport) has its centre
  at the coordinate below.
\<close>

definition v_texCoord :: "nat \<Rightarrow> nat \<Rightarrow> nat \<Rightarrow> nat \<Rightarrow> real \<times> real" where
  "v_texCoord W H x y = ((real x + 1 / 2) / real W, 1 - (real y + 1 / 2) / real H)"

text \<open>
  Writing a fragment to the 8-bit drawing buffer: each component is clamped to
  \<open>[0, 1]\<close>, scaled by 255 and rounded to the nearest integer.
\<close>

definition float_to_unorm8 :: "real \<Rightarrow> byte" where
  "float_to_unorm8 v = word_of_nat (nat \<lfloor>clamp_gl v 0 1 * 255 + 1 / 2\<rfloor>)"

definition fragment_bytes :: "vec4 \<Rightarrow> byte list" where
  "fragment_bytes c =
     [float_to_unorm8 (qx c), float_to_unorm8 (qy c), float_to_unorm8 (qz c),
      float_to_unorm8 (qw c)]"

datatype program = MaskProgram | BlackBgProgram

definition run_fragment :: "program \<Rightarrow> ChromaKeySettings \<Rightarrow> vec4 \<Rightarrow> vec4" where
  "run_fragment prog s color =
     (case prog of MaskProgram \<Rightarrow> maskFragmentShader s color
                 | BlackBgProgram \<Rightarrow> blackBgFragmentShader s color)"

text \<open>\<^verbatim>\<open>subarray(begin, end)\<close> and \<^verbatim>\<open>set(source, offset)\<close> of typed arrays.\<close>

definition subarray :: "'a list \<Rightarrow> nat \<Rightarrow> nat \<Rightarrow> 'a list" where
  "subarray xs b e = take (e - b) (drop b xs)"

definition typed_set :: "'a list \<Rightarrow> 'a list \<Rightarrow> nat \<Rightarrow> 'a list" where
  "typed_set dst src off = take off dst @ src @ drop (off + length src) dst"

text \<open>The processor object: the size of its canvas.\<close>

record ChromaKeyProcessor =
  canvas_width :: nat
  canvas_height :: nat

text \<open>
  The colour the active program writes for the fragment in column \<open>x\<close> of row \<open>y\<close>
  (rows counted from the bottom) of the processor's canvas.
\<close>

definition fragment_at ::
  "ChromaKeyProcessor \<Rightarrow> program \<Rightarrow> ImageData \<Rightarrow> ChromaKeySettings \<Rightarrow> nat \<Rightarrow> nat \<Rightarrow> vec4" where
  "fragment_at p prog imageData settings x y =
     run_fragment prog settings
       (texture2D imageData (v_texCoord (canvas_width p) (canvas_height p) x y))"

text \<open>
  \<^verbatim>\<open>readPixels\<close> returns the rows of the drawing buffer from the bottom row upwards.
\<close>

definition readPixels :: "ChromaKeyProcessor \<Rightarrow> program \<Rightarrow> ImageData \<Rightarrow> ChromaKeySettings \<Rightarrow> byte list" where
  "readPixels p prog imageData settings =
     concat (map (\<lambda>y. concat (map (\<lambda>x. fragment_bytes (fragment_at p prog imageData settings x y))
                                   [0..<canvas_width p])) [0..<canvas_height p])"

text \<open>The loop \<^verbatim>\<open>for (let y = 0; y < this.height; y++)\<close> that flips the rows.\<close>

definition flipY :: "nat \<Rightarrow> nat \<Rightarrow> byte list \<Rightarrow> byte list" where
  "flipY W H output =
     (let rowSize = W * 4
      in fold (\<lambda>y flipped.
                 let srcRow = (H - 1 - y) * rowSize; dstRow = y * rowSize
                 in typed_set flipped (subarray output srcRow (srcRow + rowSize)) dstRow)
              [0..<H] (replicate (length output) 0))"

definition renderWithProgram :: "ChromaKeyProcessor \<Rightarrow> program \<Rightarrow> ImageData \<Rightarrow> ChromaKeySettings \<Rightarrow> ImageData" where
  "renderWithProgram p prog imageData settings =
     (let output = readPixels p prog imageData settings;
          flipped = flipY (canvas_width p) (canvas_height p) output
      in \<lparr> width = canvas_width p, height = canvas_height p, data = flipped \<rparr>)"

record ProcessingResult =
  mask :: ImageData
  black :: ImageData

definition processFrameAll :: "ChromaKeyProcessor \<Rightarrow> ImageData \<Rightarrow> ChromaKeySettings \<Rightarrow> ProcessingResult" where
  "processFrameAll p imageData settings =
     \<lparr> mask = renderWithProgram p MaskProgram imageData settings,
       black = renderWithProgram p BlackBgProgram imageData settings \<rparr>"


section \<open>The environment of the processor\<close>

text \<open>
  What the browser grants: whether each GPU resource the constructor of
  \<^verbatim>\<open>ChromaKeyProcessor\<close> asks for is created, whether a 2D canvas context is available and
  whether the captured video track has \<^verbatim>\<open>requestFrame\<close>.
\<close>

datatype error = Error string

record browser =
  webgl_supported :: bool
  mask_shaders_ok :: bool
  mask_program_ok :: bool
  black_shaders_ok :: bool
  black_program_ok :: bool
  position_buffer_ok :: bool
  texcoord_buffer_ok :: bool
  texture_ok :: bool
  canvas2d_ok :: bool
  has_requestFrame :: bool

text \<open>The constructor of \<^verbatim>\<open>ChromaKeyProcessor\<close>, with its throws in the order of the code.\<close>

definition new_ChromaKeyProcessor :: "browser \<Rightarrow> nat \<Rightarrow> nat \<Rightarrow> error + ChromaKeyProcessor" where
  "new_ChromaKeyProcessor env w h =
     (if \<not> webgl_supported env then Inl (Error ''WebGL not supported'')
      else if \<not> mask_shaders_ok env then Inl (Error ''Failed to create mask shaders'')
      else if \<not> mask_program_ok env then Inl (Error ''Failed to create mask program'')
      else if \<not> black_shaders_ok env then Inl (Error ''Failed to create black bg shaders'')
      else if \<not> black_program_ok env then Inl (Error ''Failed to create black bg program'')
      else if \<not> position_buffer_ok env then Inl (Error ''Failed to create position buffer'')
      else if \<not> texcoord_buffer_ok env then Inl (Error ''Failed to create texCoord buffer'')
      else if \<not> texture_ok env then Inl (Error ''Failed to create texture'')
      else Inr \<lparr> canvas_width = w, canvas_height = h \<rparr>)"

definition gpu_available :: "browser \<Rightarrow> bool" where
  "gpu_available env \<longleftrightarrow>
     webgl_supported env \<and> mask_shaders_ok env \<and> mask_program_ok env \<and>
     black_shaders_ok env \<and> black_program_ok env \<and> position_buffer_ok env \<and>
     texcoord_buffer_ok env \<and> texture_ok env"


section \<open>Frame processing (\<^verbatim>\<open>VideoProcessor.processFrames\<close>)\<close>

datatype colorType = Green | Blue

text \<open>
  What \<^verbatim>\<open>processFrames\<close> does besides returning: constructing and destroying the
  processor, the progress callback and the yields to the event loop.
\<close>

datatype event = NewContext nat nat | DestroyContext | Progress nat nat | Yield

function processFrames_loop ::
  "ChromaKeyProcessor \<Rightarrow> ChromaKeySettings \<Rightarrow> ImageData list \<Rightarrow> nat \<Rightarrow>
   ImageData list \<times> ImageData list \<times> event list \<Rightarrow> ImageData list \<times> ImageData list \<times> event list" where
  "processFrames_loop p settings frames i (maskFrames, blackFrames, trace) =
     (if i < length frames then
        (let result = processFrameAll p (frames ! i) settings
         in processFrames_loop p settings frames (i + 1)
              (maskFrames @ [mask result], blackFrames @ [black result],
               trace @ [Progress (i + 1) (length frames)] @ (if i mod 5 = 0 then [Yield] else [])))
      else (maskFrames, blackFrames, trace))"
  by pat_completeness auto
termination
  by (relation "measure (\<lambda>(p, settings, frames, i, acc). length frames - i)") auto

declare processFrames_loop.simps [simp del]

definition processFrames ::
  "browser \<Rightarrow> ImageData list \<Rightarrow> colorType \<Rightarrow> (error + ImageData list \<times> ImageData list) \<times> event list" where
  "processFrames env frames colorType =
     (if length frames = 0 then (Inr ([], []), [])
      else
        (let w = width (frames ! 0); h = height (frames ! 0)
         in case new_ChromaKeyProcessor env w h of
              Inl e \<Rightarrow> (Inl e, [NewContext w h])
            | Inr p \<Rightarrow>
                (let settings = (if colorType = Green then GREEN_SCREEN_SETTINGS
                                 else BLUE_SCREEN_SETTINGS);
                     r = processFrames_loop p settings frames 0 ([], [], [NewContext w h])
                 in (Inr (fst r, fst (snd r)), snd (snd r) @ [DestroyContext]))))"


section \<open>Reassembly (\<^verbatim>\<open>VideoProcessor.createVideo\<close>)\<close>

text \<open>
  What the reassembler does to the capture sink, in order. \<open>ScheduleNextFrame d\<close> is
  \<^verbatim>\<open>setTimeout(drawNextFrame, d)\<close> and \<open>ScheduleStop d\<close> is the timer of \<open>d\<close> ms that
  stops the recorder. Error events of the recorder are not modelled.
\<close>

datatype capture_event =
  RecorderStart | PutImageData nat | RequestFrame | VideoProgress nat nat
  | ScheduleNextFrame real | ScheduleStop real | RecorderStop

datatype blob = Blob string

text \<open>
  \<open>now k\<close> is what the \<open>k\<close>-th call of \<^verbatim>\<open>performance.now()\<close> returns. The state of the
  closure \<^verbatim>\<open>drawNextFrame\<close> is \<open>frameIndex\<close>, \<open>nextFrameTime\<close>, the number of clock
  readings made so far and the events so far.
\<close>

function drawNextFrame ::
  "bool \<Rightarrow> (nat \<Rightarrow> real) \<Rightarrow> real \<Rightarrow> ImageData list \<Rightarrow>
   nat \<times> real \<times> nat \<times> capture_event list \<Rightarrow> capture_event list" where
  "drawNextFrame reqFrame now frameInterval frames (frameIndex, nextFrameTime, reads, trace) =
     (if frameIndex \<ge> length frames then trace @ [ScheduleStop 100, RecorderStop]
      else
        (let now_unused = now reads;
             trace1 = trace @ [PutImageData frameIndex] @ (if reqFrame then [RequestFrame] else [])
                        @ [VideoProgress (frameIndex + 1) (length frames)];
             nextFrameTime1 = nextFrameTime + frameInterval;
             delay = max 0 (nextFrameTime1 - now (reads + 1))
         in drawNextFrame reqFrame now frameInterval frames
              (frameIndex + 1, nextFrameTime1, reads + 2, trace1 @ [ScheduleNextFrame delay])))"
  by pat_completeness auto
termination
  by (relation "measure (\<lambda>(reqFrame, now, frameInterval, frames, frameIndex, rest).
                           length frames - frameIndex)") auto

declare drawNextFrame.simps [simp del]

definition createVideo ::
  "browser \<Rightarrow> (nat \<Rightarrow> real) \<Rightarrow> real \<Rightarrow> ImageData list \<Rightarrow> (error + blob) \<times> capture_event list" where
  "createVideo env now fps frames =
     (if length frames = 0 then (Inl (Error ''No frames to process''), [])
      else if \<not> canvas2d_ok env then (Inl (Error ''Failed to get canvas context''), [])
      else
        (let frameInterval = 1000 / fps;
             startTime = now 0;
             nextFrameTime = startTime
         in (Inr (Blob ''video/webm''),
             drawNextFrame (has_requestFrame env) now frameInterval frames
               (0, nextFrameTime, 1, [RecorderStart]))))"


text \<open>
  Reading a trace: the events of the iteration that draws frame \<open>k\<close> and then sleeps for
  \<open>delay\<close> ms, the target emission time of frame \<open>k\<close> as the specification gives it, the
  indices of the frames drawn and the sleeps between frames.
\<close>

definition frame_events :: "bool \<Rightarrow> nat \<Rightarrow> nat \<Rightarrow> real \<Rightarrow> capture_event list" where
  "frame_events reqFrame n k delay =
     [PutImageData k] @ (if reqFrame then [RequestFrame] else []) @
     [VideoProgress (k + 1) n, ScheduleNextFrame delay]"

definition emission_target :: "real \<Rightarrow> real \<Rightarrow> nat \<Rightarrow> real" where
  "emission_target startTime fps k = startTime + real k * (1000 / fps)"

definition drawn_frames :: "capture_event list \<Rightarrow> nat list" where
  "drawn_frames tr = concat (map (\<lambda>e. case e of PutImageData k \<Rightarrow> [k] | _ \<Rightarrow> []) tr)"

definition sleeps :: "capture_event list \<Rightarrow> real list" where
  "sleeps tr = concat (map (\<lambda>e. case e of ScheduleNextFrame d \<Rightarrow> [d] | _ \<Rightarrow> []) tr)"


section \<open>JavaScript numbers in the frame extractor\<close>

text \<open>
  \<^verbatim>\<open>extractFrames\<close> counts its frames with \<^verbatim>\<open>Math.floor(duration * this.fps)\<close>, and one
  unit in the last place of the product decides whether a frame more is extracted. Its
  arithmetic is therefore embedded with the rounding of IEEE 754 double precision:
  \<open>to_double x\<close> is the double nearest to the real \<open>x\<close>, ties to the even significand, with
  53 significant bits from the binade of \<open>2 powi (- 1022)\<close> upwards and the fixed spacing
  \<open>2 powi (- 1074)\<close> below it. The result is not bounded above: a caller compares it with
  \<open>2 ^ 1024\<close> where an overflow to \<^verbatim>\<open>Infinity\<close> matters.
\<close>

fun floor_log2 :: "nat \<Rightarrow> nat" where
  "floor_log2 n = (if n < 2 then 0 else Suc (floor_log2 (n div 2)))"

declare floor_log2.simps [simp del]

definition ceil_log2 :: "nat \<Rightarrow> nat" where
  "ceil_log2 n = (if n \<le> 1 then 0 else Suc (floor_log2 (n - 1)))"

text \<open>The exponent \<open>e\<close> with \<open>2 powi e \<le> x < 2 powi (e + 1)\<close>, for a positive \<open>x\<close>.\<close>

definition binade :: "real \<Rightarrow> int" where
  "binade x = (if 1 \<le> x then int (floor_log2 (nat \<lfloor>x\<rfloor>))
               else - int (ceil_log2 (nat \<lceil>1 / x\<rceil>)))"

definition binade_clamped :: "real \<Rightarrow> int" where
  "binade_clamped x = max (binade x) (- 1022)"

definition round_half_even :: "real \<Rightarrow> int" where
  "round_half_even x =
     (let f = \<lfloor>x\<rfloor>; r = x - of_int f
      in if r < 1 / 2 then f else if r > 1 / 2 then f + 1 else if even f then f else f + 1)"

definition to_double :: "real \<Rightarrow> real" where
  "to_double x =
     (if x = 0 then 0
      else (let a = \<bar>x\<bar>; ulp = 2 powi (binade_clamped a - 52)
            in sgn x * (of_int (round_half_even (a / ulp)) * ulp)))"

text \<open>
  The product and the quotient of two numbers: the operands are doubles (a value that is
  not one stands for the double nearest to it) and the exact result is rounded.
\<close>

definition js_times :: "real \<Rightarrow> real \<Rightarrow> real" where
  "js_times a b = to_double (to_double a * to_double b)"

definition js_divide :: "real \<Rightarrow> real \<Rightarrow> real" where
  "js_divide a b = to_double (to_double a / to_double b)"


section \<open>Extraction (\<^verbatim>\<open>VideoProcessor.extractFrames\<close>)\<close>

text \<open>
  The \<^verbatim>\<open>duration\<close> of a video element is a number of seconds, \<^verbatim>\<open>NaN\<close> while it is
  unknown, or \<^verbatim>\<open>Infinity\<close> for an unbounded stream. \<open>displayed t\<close> is the pixel data
  that \<^verbatim>\<open>drawImage\<close> and \<^verbatim>\<open>getImageData\<close> read once the element has been sought to time
  \<open>t\<close>. The element is taken to answer every seek with its \<^verbatim>\<open>seeked\<close> event.
\<close>

datatype video_duration = Seconds real | DurationNaN | DurationInfinity

record HTMLVideoElement =
  videoWidth :: nat
  videoHeight :: nat
  duration :: video_duration
  displayed :: "real \<Rightarrow> byte list"

text \<open>
  The values \<^verbatim>\<open>Math.floor(duration * this.fps)\<close> can take, for a finite \<open>fps\<close>: the floor
  of the rounded product, or an infinity when the product overflows or the duration is
  infinite.
\<close>

datatype frame_count = Count int | CountInfinity | CountNegInfinity | CountNaN

definition totalFrames_of :: "video_duration \<Rightarrow> real \<Rightarrow> frame_count" where
  "totalFrames_of d fps =
     (case d of
        Seconds x \<Rightarrow>
          (let product = js_times x fps
           in if 2 ^ 1024 \<le> product then CountInfinity
              else if product \<le> - (2 ^ 1024) then CountNegInfinity
              else Count \<lfloor>product\<rfloor>)
      | DurationNaN \<Rightarrow> CountNaN
      | DurationInfinity \<Rightarrow>
          (if to_double fps > 0 then CountInfinity
           else if to_double fps < 0 then CountNegInfinity else CountNaN))"

text \<open>The loop test \<^verbatim>\<open>i < totalFrames\<close>.\<close>

definition index_below :: "nat \<Rightarrow> frame_count \<Rightarrow> bool" where
  "index_below i totalFrames =
     (case totalFrames of Count n \<Rightarrow> int i < n | CountInfinity \<Rightarrow> True
                  | CountNegInfinity \<Rightarrow> False | CountNaN \<Rightarrow> False)"

datatype extract_event = SeekTo real | ExtractProgress nat frame_count

definition capture :: "HTMLVideoElement \<Rightarrow> real \<Rightarrow> ImageData" where
  "capture video time =
     \<lparr> width = videoWidth video, height = videoHeight video, data = displayed video time \<rparr>"

text \<open>
  The loop runs for ever on an unbounded stream, so it is a partial function: \<open>None\<close>
  is not returning. The counter \<open>i\<close> is a natural number: the counter of the code is
  exact up to \<open>2 ^ 53\<close>. The seek time is the rounded product \<^verbatim>\<open>i * frameInterval\<close> of the
  counter and the rounded quotient \<^verbatim>\<open>1 / this.fps\<close>; an overflow of either is not
  modelled, and no frame is extracted at a rate of zero, where the quotient is
  \<^verbatim>\<open>Infinity\<close>.
\<close>

partial_function (option) extractFrames_loop ::
  "HTMLVideoElement \<Rightarrow> real \<Rightarrow> frame_count \<Rightarrow> nat \<Rightarrow> ImageData list \<times> extract_event list \<Rightarrow>
   (ImageData list \<times> extract_event list) option" where
  "extractFrames_loop video frameInterval totalFrames i acc =
     (if index_below i totalFrames then
        (let time = js_times (real i) frameInterval;
             imageData = capture video time
         in extractFrames_loop video frameInterval totalFrames (i + 1)
              (fst acc @ [imageData], snd acc @ [SeekTo time, ExtractProgress (i + 1) totalFrames]))
      else Some acc)"

declare extractFrames_loop.simps [code]

definition extractFrames ::
  "browser \<Rightarrow> real \<Rightarrow> HTMLVideoElement \<Rightarrow> ((error + ImageData list) \<times> extract_event list) option" where
  "extractFrames env fps videoElement =
     (if \<not> canvas2d_ok env then Some (Inl (Error ''Failed to get canvas context''), [])
      else
        (let totalFrames = totalFrames_of (duration videoElement) fps;
             frameInterval = js_divide 1 fps
         in map_option (\<lambda>r. (Inr (fst r), snd r))
              (extractFrames_loop videoElement frameInterval totalFrames 0 ([], []))))"


section \<open>Concrete inputs\<close>

text \<open>A browser that grants every resource.\<close>

definition full_browser :: browser where
  "full_browser =
     \<lparr> webgl_supported = True, mask_shaders_ok = True, mask_program_ok = True,
       black_shaders_ok = True, black_program_ok = True, position_buffer_ok = True,
       texcoord_buffer_ok = True, texture_ok = True, canvas2d_ok = True,
       has_requestFrame = True \<rparr>"

text \<open>
  A clock that reads 20 ms when the first sleep is computed and 90 ms when the second
  one is, and a one-second video of one green pixel.
\<close>

definition sample_clock :: "nat \<Rightarrow> real" where
  "sample_clock k = (if k = 2 then 20 else if k = 4 then 90 else 0)"

definition sample_video :: HTMLVideoElement where
  "sample_video =
     \<lparr> videoWidth = 1, videoHeight = 1, duration = Seconds 1,
       displayed = (\<lambda>t. [0, 255, 0, 255]) \<rparr>"

text \<open>
  A video whose duration is the double nearest to 0.12 s, and how many frames an
  extraction returned.
\<close>

definition short_video :: HTMLVideoElement where
  "short_video =
     \<lparr> videoWidth = 1, videoHeight = 1, duration = Seconds (1080863910568919 / 2 ^ 53),
       displayed = (\<lambda>t. [0, 255, 0, 255]) \<rparr>"

definition frames_returned ::
  "((error + ImageData list) \<times> extract_event list) option \<Rightarrow> nat option" where
  "frames_returned r = (case r of Some (Inr fs, tr) \<Rightarrow> Some (length fs) | _ \<Rightarrow> None)"

text \<open>Valid key settings with an orange key hue, for which a green pixel is a quarter turn away.\<close>

definition orange_key_settings :: ChromaKeySettings where
  "orange_key_settings = GREEN_SCREEN_SETTINGS \<lparr> hueTarget := 30 \<rparr>"


section \<open>Properties of the GLSL built-ins and of the classification\<close>

lemma clamp_gl_range: "0 \<le> clamp_gl x 0 1 \<and> clamp_gl x 0 1 \<le> 1"
  by (simp add: clamp_gl_def)

lemma cubic_range:
  fixes t :: real
  assumes "0 \<le> t" "t \<le> 1"
  shows "0 \<le> t * t * (3 - 2 * t) \<and> t * t * (3 - 2 * t) \<le> 1"
proof -
  have lo: "0 \<le> t * t * (3 - 2 * t)" using assms by simp
  have "1 - t * t * (3 - 2 * t) = (1 - t) * (1 - t) * (1 + 2 * t)"
    by (simp add: algebra_simps)
  moreover have "0 \<le> (1 - t) * (1 - t) * (1 + 2 * t)" using assms by simp
  ultimately have "t * t * (3 - 2 * t) \<le> 1" by linarith
  with lo show ?thesis by simp
qed

lemma smoothstep_range: "0 \<le> smoothstep a b x \<and> smoothstep a b x \<le> 1"
  unfolding smoothstep_def Let_def using cubic_range clamp_gl_range by blast

lemma smoothstep_low: "x \<le> a \<Longrightarrow> a < b \<Longrightarrow> smoothstep a b x = 0"
  by (simp add: smoothstep_def clamp_gl_def Let_def max_def min_def divide_le_0_iff)

lemma smoothstep_high:
  assumes "b \<le> x" "a < b" shows "smoothstep a b x = 1"
proof -
  have "1 \<le> (x - a) / (b - a)" using assms by (simp add: le_divide_eq)
  then have "clamp_gl ((x - a) / (b - a)) 0 1 = 1" by (simp add: clamp_gl_def)
  then show ?thesis by (simp add: smoothstep_def)
qed

lemma hueDiff_wrap:
  "(if \<bar>d\<bar> > 180 then 360 - \<bar>d\<bar> else \<bar>d\<bar>) = min \<bar>d\<bar> (360 - \<bar>d::real\<bar>)"
  by (simp add: min_def)

lemma valMatch_gate:
  "step_gl lo v * step_gl v hi = (if lo \<le> v \<and> v \<le> hi then 1 else 0)"
  by (simp add: step_gl_def)

lemma mask_alpha_ref: "mask_alpha s color = alpha_ref s color"
  unfolding mask_alpha_def mask_keyStrength_def mask_hueMatch_def mask_satMatch_def
    mask_valMatch_def mask_dominance_def mask_hueDiff_def mask_hsv_def alpha_ref_def Let_def
    circular_hue_distance_def valMatch_gate hueDiff_wrap
  by simp

lemma blackBg_alpha_ref: "blackBg_alpha s color = alpha_ref s color"
  unfolding blackBg_alpha_def blackBg_keyStrength_def alpha_ref_def Let_def
    circular_hue_distance_def valMatch_gate hueDiff_wrap
  by simp

lemma alpha_ref_range: "0 \<le> alpha_ref s color \<and> alpha_ref s color \<le> 1"
  unfolding alpha_ref_def Let_def
  using smoothstep_range[of "3 / 10 - smoothness s" "3 / 10 + smoothness s"] by simp

lemma excess_amount_bounds:
  fixes k a amount :: real
  assumes "0 \<le> amount" "amount \<le> 1"
  shows "0 \<le> max 0 (k - a) * amount \<and> max 0 (k - a) * amount \<le> max 0 (k - a)"
proof -
  have "0 \<le> max 0 (k - a)" by simp
  then show ?thesis using assms by (simp add: mult_left_le)
qed

lemma suppressSpill_unit:
  assumes c: "unit_color c" and a: "0 \<le> amount" "amount \<le> 1"
  shows "unit_color (suppressSpill c amount isGreen)"
proof (cases isGreen)
  case True
  define e where "e = max 0 (vy c - (vx c + vz c) * (1 / 2)) * amount"
  have e: "0 \<le> e" "e \<le> max 0 (vy c - (vx c + vz c) * (1 / 2))"
    using excess_amount_bounds[OF a, of "vy c" "(vx c + vz c) * (1 / 2)"] by (simp_all add: e_def)
  have "max 0 (vy c - (vx c + vz c) * (1 / 2)) \<le> vy c"
    using c by (simp add: unit_color_def)
  with e have k: "0 \<le> vy c - e" "vy c - e \<le> vy c" by linarith+
  have "suppressSpill c amount isGreen =
        Vec3 (min 1 (vx c + e * (2 / 10))) (vy c - e) (min 1 (vz c + e * (2 / 10)))"
    using True by (simp add: suppressSpill_def Let_def e_def)
  then show ?thesis using c e(1) k by (simp add: unit_color_def)
next
  case False
  define e where "e = max 0 (vz c - (vx c + vy c) * (1 / 2)) * amount"
  have e: "0 \<le> e" "e \<le> max 0 (vz c - (vx c + vy c) * (1 / 2))"
    using excess_amount_bounds[OF a, of "vz c" "(vx c + vy c) * (1 / 2)"] by (simp_all add: e_def)
  have "max 0 (vz c - (vx c + vy c) * (1 / 2)) \<le> vz c"
    using c by (simp add: unit_color_def)
  with e have k: "0 \<le> vz c - e" "vz c - e \<le> vz c" by linarith+
  have "suppressSpill c amount isGreen =
        Vec3 (min 1 (vx c + e * (2 / 10))) (min 1 (vy c + e * (2 / 10))) (vz c - e)"
    using False by (simp add: suppressSpill_def Let_def e_def)
  then show ?thesis using c e(1) k by (simp add: unit_color_def)
qed

lemma suppressSpill_key_above_avg:
  assumes a: "0 \<le> amount" "amount \<le> 1"
  shows "min (vy c) ((vx c + vz c) / 2) \<le> vy (suppressSpill c amount True) \<and>
         min (vz c) ((vx c + vy c) / 2) \<le> vz (suppressSpill c amount False)"
proof -
  define e1 where "e1 = max 0 (vy c - (vx c + vz c) * (1 / 2)) * amount"
  define e2 where "e2 = max 0 (vz c - (vx c + vy c) * (1 / 2)) * amount"
  have e1: "e1 \<le> max 0 (vy c - (vx c + vz c) * (1 / 2))"
    using excess_amount_bounds[OF a, of "vy c" "(vx c + vz c) * (1 / 2)"] by (simp add: e1_def)
  have e2: "e2 \<le> max 0 (vz c - (vx c + vy c) * (1 / 2))"
    using excess_amount_bounds[OF a, of "vz c" "(vx c + vy c) * (1 / 2)"] by (simp add: e2_def)
  have g: "vy (suppressSpill c amount True) = vy c - e1"
    by (simp add: suppressSpill_def Let_def e1_def)
  have b: "vz (suppressSpill c amount False) = vz c - e2"
    by (simp add: suppressSpill_def Let_def e2_def)
  have "min (vy c) ((vx c + vz c) / 2) \<le> vy c - e1"
  proof (cases "0 \<le> vy c - (vx c + vz c) * (1 / 2)")
    case True
    then have "e1 \<le> vy c - (vx c + vz c) * (1 / 2)" using e1 by (simp add: max_def)
    then have "(vx c + vz c) / 2 \<le> vy c - e1" by linarith
    then show ?thesis by (simp add: min.coboundedI2)
  next
    case False
    then have "e1 \<le> 0" using e1 by (simp add: max_def)
    then show ?thesis by (simp add: min.coboundedI1)
  qed
  moreover have "min (vz c) ((vx c + vy c) / 2) \<le> vz c - e2"
  proof (cases "0 \<le> vz c - (vx c + vy c) * (1 / 2)")
    case True
    then have "e2 \<le> vz c - (vx c + vy c) * (1 / 2)" using e2 by (simp add: max_def)
    then have "(vx c + vy c) / 2 \<le> vz c - e2" by linarith
    then show ?thesis by (simp add: min.coboundedI2)
  next
    case False
    then have "e2 \<le> 0" using e2 by (simp add: max_def)
    then show ?thesis by (simp add: min.coboundedI1)
  qed
  ultimately show ?thesis by (simp add: g b)
qed

lemma spillStrength_range:
  assumes "0 \<le> sp" "sp \<le> 1" "0 \<le> (al::real)" "al \<le> 1"
  shows "0 \<le> sp * (1 - al * (1 / 2)) \<and> sp * (1 - al * (1 / 2)) \<le> 1"
proof -
  have "0 \<le> 1 - al * (1 / 2)" "1 - al * (1 / 2) \<le> 1" using assms by simp_all
  then show ?thesis using assms by (simp add: mult_le_one)
qed

lemma scale_unit:
  assumes "0 \<le> (v::real)" "v \<le> 1" "0 \<le> al" "al \<le> 1"
  shows "0 \<le> v * al \<and> v * al \<le> 1"
  using assms by (simp add: mult_le_one)

lemma blackBg_unit:
  assumes s: "valid_settings s" and c: "unit_color (Vec3 (qx color) (qy color) (qz color))"
  shows "unit_color (Vec3 (qx (blackBgFragmentShader s color)) (qy (blackBgFragmentShader s color))
                          (qz (blackBgFragmentShader s color)))"
proof -
  define al where "al = blackBg_alpha s color"
  define st where "st = spillSuppression s * (1 - al * (1 / 2))"
  define d where "d = suppressSpill (Vec3 (qx color) (qy color) (qz color)) st (hueTarget s < 180)"
  have al: "0 \<le> al" "al \<le> 1" using alpha_ref_range[of s color] by (simp_all add: al_def blackBg_alpha_ref)
  have st: "0 \<le> st" "st \<le> 1"
    using spillStrength_range[of "spillSuppression s" al] s al by (simp_all add: st_def valid_settings_def)
  have d: "unit_color d" unfolding d_def by (rule suppressSpill_unit[OF c st])
  have out: "blackBgFragmentShader s color = Vec4 (vx d * al) (vy d * al) (vz d * al) 1"
    by (simp add: blackBgFragmentShader_def Let_def d_def st_def al_def)
  show ?thesis
    using d al scale_unit[of "vx d" al] scale_unit[of "vy d" al] scale_unit[of "vz d" al]
    by (simp add: out unit_color_def)
qed


lemma mask_alpha_unkeyed:
  assumes "mask_dominance s color = 0 \<or> mask_valMatch s color = 0 \<or> mask_hueMatch s color = 0"
    and "0 < smoothness s" "smoothness s \<le> 3 / 10"
  shows "mask_alpha s color = 1"
proof -
  have "mask_keyStrength s color = 0" using assms(1) by (auto simp: mask_keyStrength_def)
  moreover have "smoothstep (3 / 10 - smoothness s) (3 / 10 + smoothness s) 0 = 0"
    by (rule smoothstep_low) (use assms in simp_all)
  ultimately show ?thesis by (simp add: mask_alpha_def)
qed

lemma mask_alpha_keyed:
  assumes "mask_dominance s color = 1" "mask_valMatch s color = 1" "mask_hueMatch s color = 1"
    "mask_satMatch s color = 1"
    and "0 < smoothness s" "smoothness s \<le> 7 / 10"
  shows "mask_alpha s color = 0"
proof -
  have "mask_keyStrength s color = 1" using assms by (simp add: mask_keyStrength_def)
  moreover have "smoothstep (3 / 10 - smoothness s) (3 / 10 + smoothness s) 1 = 1"
    by (rule smoothstep_high) (use assms in simp_all)
  ultimately show ?thesis by (simp add: mask_alpha_def)
qed

lemma preset_fields:
  "hueTarget GREEN_SCREEN_SETTINGS = 120" "hueRange GREEN_SCREEN_SETTINGS = 80"
  "satMin GREEN_SCREEN_SETTINGS = 15 / 100" "valMin GREEN_SCREEN_SETTINGS = 1 / 10"
  "valMax GREEN_SCREEN_SETTINGS = 98 / 100" "smoothness GREEN_SCREEN_SETTINGS = 12 / 100"
  "spillSuppression GREEN_SCREEN_SETTINGS = 7 / 10"
  "hueTarget BLUE_SCREEN_SETTINGS = 240" "hueRange BLUE_SCREEN_SETTINGS = 80"
  "satMin BLUE_SCREEN_SETTINGS = 15 / 100" "valMin BLUE_SCREEN_SETTINGS = 1 / 10"
  "valMax BLUE_SCREEN_SETTINGS = 98 / 100" "smoothness BLUE_SCREEN_SETTINGS = 12 / 100"
  "spillSuppression BLUE_SCREEN_SETTINGS = 7 / 10"
  by (simp_all add: GREEN_SCREEN_SETTINGS_def BLUE_SCREEN_SETTINGS_def)

lemma yellow_dominance: "mask_dominance GREEN_SCREEN_SETTINGS (Vec4 1 1 0 1) = 0"
  by (simp add: mask_dominance_def preset_fields smoothstep_low)

lemma yellow_alpha: "mask_alpha GREEN_SCREEN_SETTINGS (Vec4 1 1 0 1) = 1"
  by (rule mask_alpha_unkeyed) (simp_all add: yellow_dominance preset_fields)

lemma yellow_shader:
  "blackBgFragmentShader GREEN_SCREEN_SETTINGS (Vec4 1 1 0 1) = Vec4 1 (33 / 40) (7 / 200) 1"
proof -
  have a: "alpha_ref GREEN_SCREEN_SETTINGS (Vec4 1 1 0 1) = 1"
    using yellow_alpha by (simp add: mask_alpha_ref)
  show ?thesis
    unfolding blackBgFragmentShader_def blackBg_alpha_ref a Let_def preset_fields suppressSpill_def
    by simp
qed

lemma yellow_ref:
  "composite_ref GREEN_SCREEN_SETTINGS (Vec4 1 1 0 1) = Vec4 (11 / 10) (33 / 40) (1 / 10) 1"
proof -
  have a: "alpha_ref GREEN_SCREEN_SETTINGS (Vec4 1 1 0 1) = 1"
    using yellow_alpha by (simp add: mask_alpha_ref)
  show ?thesis
    unfolding composite_ref_def a Let_def preset_fields
    by simp
qed

lemma yellow_uncapped:
  "composite_uncapped GREEN_SCREEN_SETTINGS (Vec4 1 1 0 1) = Vec4 (207 / 200) (33 / 40) (7 / 200) 1"
proof -
  have a: "alpha_ref GREEN_SCREEN_SETTINGS (Vec4 1 1 0 1) = 1"
    using yellow_alpha by (simp add: mask_alpha_ref)
  show ?thesis
    unfolding composite_uncapped_def a Let_def preset_fields
    by simp
qed


section \<open>Properties of the GPU pipeline\<close>

lemma length_concat_uniform:
  "\<forall>i<n. length (f i) = m \<Longrightarrow> length (concat (map f [0..<n])) = n * m"
  by (induction n) simp_all

lemma concat_uniform_split:
  assumes "i < n"
  shows "concat (map f [0..<n]) = concat (map f [0..<i]) @ f i @ concat (map f [Suc i..<n])"
proof -
  have "[0..<n] = [0..<i] @ i # [Suc i..<n]"
    using assms upt_add_eq_append[of 0 i "n - i"] by (simp add: upt_conv_Cons)
  then show ?thesis by simp
qed

lemma concat_uniform_nth:
  assumes len: "\<forall>i<n. length (f i) = m" and i: "i < n" and j: "j < m"
  shows "concat (map f [0..<n]) ! (i * m + j) = f i ! j"
proof -
  have A: "length (concat (map f [0..<i])) = i * m"
    using len i by (intro length_concat_uniform) simp
  have fi: "length (f i) = m" using len i by simp
  show ?thesis
    unfolding concat_uniform_split[OF i]
    using A fi j by (simp add: nth_append)
qed

lemma subarray_row:
  assumes len: "\<forall>i<n. length (f i) = m" and i: "i < n"
  shows "subarray (concat (map f [0..<n])) (i * m) (i * m + m) = f i"
proof -
  have A: "length (concat (map f [0..<i])) = i * m"
    using len i by (intro length_concat_uniform) simp
  have fi: "length (f i) = m" using len i by simp
  show ?thesis
    unfolding concat_uniform_split[OF i] subarray_def
    using A fi by simp
qed

lemma flipY_rows:
  assumes len: "\<forall>y<H. length (row y) = W * 4"
  shows "flipY W H (concat (map row [0..<H])) = concat (map (\<lambda>y. row (H - 1 - y)) [0..<H])"
proof -
  define out where "out = concat (map row [0..<H])"
  define step where "step = (\<lambda>y flipped.
       typed_set flipped (subarray out ((H - 1 - y) * (W * 4)) ((H - 1 - y) * (W * 4) + W * 4))
                 (y * (W * 4)))"
  have L: "length out = H * (W * 4)"
    unfolding out_def using len by (rule length_concat_uniform)
  have inv: "fold step [0..<k] (replicate (H * (W * 4)) 0)
             = concat (map (\<lambda>y. row (H - 1 - y)) [0..<k]) @ replicate ((H - k) * (W * 4)) 0"
    if "k \<le> H" for k
    using that
  proof (induction k)
    case 0
    then show ?case by simp
  next
    case (Suc k)
    then have kH: "k < H" by simp
    have src: "subarray out ((H - 1 - k) * (W * 4)) ((H - 1 - k) * (W * 4) + W * 4) = row (H - 1 - k)"
      unfolding out_def using kH by (intro subarray_row[OF len]) simp
    have A: "length (concat (map (\<lambda>y. row (H - 1 - y)) [0..<k])) = k * (W * 4)"
      using len kH by (intro length_concat_uniform) simp
    have r: "length (row (H - 1 - k)) = W * 4" using len kH by simp
    have rest: "(H - k) * (W * 4) - W * 4 = (H - Suc k) * (W * 4)"
      by (simp add: diff_mult_distrib)
    have "fold step [0..<Suc k] (replicate (H * (W * 4)) 0)
          = step k (concat (map (\<lambda>y. row (H - 1 - y)) [0..<k]) @ replicate ((H - k) * (W * 4)) 0)"
      using Suc by simp
    also have "\<dots> = concat (map (\<lambda>y. row (H - 1 - y)) [0..<k]) @ row (H - 1 - k)
                     @ replicate ((H - Suc k) * (W * 4)) 0"
      unfolding step_def src typed_set_def using A r rest by simp
    finally show ?case by simp
  qed
  have "flipY W H out = fold step [0..<H] (replicate (H * (W * 4)) 0)"
    by (simp add: flipY_def step_def Let_def L)
  then have "flipY W H out = concat (map (\<lambda>y. row (H - 1 - y)) [0..<H])"
    using inv[of H] by simp
  then show ?thesis unfolding out_def .
qed

lemma length_fragment_bytes: "length (fragment_bytes c) = 4"
  by (simp add: fragment_bytes_def)

lemma render_data:
  "data (renderWithProgram p prog img s) =
     concat (map (\<lambda>y. concat (map (\<lambda>x. fragment_bytes (fragment_at p prog img s x (canvas_height p - 1 - y)))
                                   [0..<canvas_width p])) [0..<canvas_height p])"
proof -
  have len: "\<forall>y<canvas_height p. length (concat (map (\<lambda>x. fragment_bytes (fragment_at p prog img s x y))
                                   [0..<canvas_width p])) = canvas_width p * 4"
    by (simp add: length_concat_uniform length_fragment_bytes)
  show ?thesis
    unfolding renderWithProgram_def readPixels_def Let_def
    using flipY_rows[OF len] by simp
qed

lemma render_pixel:
  assumes x: "x < canvas_width p" and y: "y < canvas_height p"
  shows "pixel_at (renderWithProgram p prog img s) x y
         = fragment_bytes (fragment_at p prog img s x (canvas_height p - 1 - y))"
proof -
  let ?W = "canvas_width p" and ?H = "canvas_height p"
  let ?row = "\<lambda>y. concat (map (\<lambda>x. fragment_bytes (fragment_at p prog img s x (?H - 1 - y))) [0..<?W])"
  have rows: "\<forall>y<?H. length (?row y) = ?W * 4"
    by (simp add: length_concat_uniform length_fragment_bytes)
  have nth: "data (renderWithProgram p prog img s) ! (4 * (y * ?W + x) + c)
             = fragment_bytes (fragment_at p prog img s x (?H - 1 - y)) ! c" if c: "c < 4" for c
  proof -
    have idx: "4 * (y * ?W + x) + c = y * (?W * 4) + (x * 4 + c)" by (simp add: algebra_simps)
    have inrow: "x * 4 + c < ?W * 4" using x c by simp
    have "data (renderWithProgram p prog img s) ! (4 * (y * ?W + x) + c) = ?row y ! (x * 4 + c)"
      unfolding render_data idx by (rule concat_uniform_nth[OF rows y inrow])
    also have "\<dots> = fragment_bytes (fragment_at p prog img s x (?H - 1 - y)) ! c"
      by (rule concat_uniform_nth) (use x c in \<open>simp_all add: length_fragment_bytes\<close>)
    finally show ?thesis .
  qed
  have w: "width (renderWithProgram p prog img s) = ?W" by (simp add: renderWithProgram_def Let_def)
  show ?thesis
    unfolding pixel_at_def Let_def w
    using nth[of 0] nth[of 1] nth[of 2] nth[of 3]
    by (simp add: fragment_bytes_def)
qed

lemma solid_nth:
  assumes "k < n" "c < length px"
  shows "concat (replicate n px) ! (k * length px + c) = px ! c"
proof -
  have "concat (replicate n px) = concat (map (\<lambda>_. px) [0..<n])"
    by (simp add: map_replicate_const)
  then show ?thesis
    using concat_uniform_nth[of n "\<lambda>_. px" "length px" k c] assms by simp
qed

lemma texel_solid:
  assumes "i < w" "j < h"
  shows "texel (solid_frame w h [r, g, b, a]) i j
         = Vec4 (unorm8_to_float r) (unorm8_to_float g) (unorm8_to_float b) (unorm8_to_float a)"
proof -
  have "j * w + i < (j + 1) * w" using assms by simp
  also have "\<dots> \<le> h * w" using assms by (intro mult_le_mono1) simp
  finally have k: "j * w + i < w * h" by (simp add: mult.commute)
  have nth: "concat (replicate (w * h) [r, g, b, a]) ! (4 * (j * w + i) + c) = [r, g, b, a] ! c"
    if "c < 4" for c
  proof -
    have e: "4 * (j * w + i) + c = (j * w + i) * length [r, g, b, a] + c" by simp
    show ?thesis unfolding e by (rule solid_nth[OF k]) (use that in simp)
  qed
  show ?thesis
    using nth[of 0] nth[of 1] nth[of 2] nth[of 3]
    by (simp add: texel_def solid_frame_def Let_def)
qed

lemma clamp_index_lt: "0 < n \<Longrightarrow> clamp_index i n < n"
  by (auto simp: clamp_index_def)

lemma mix4_same: "mix4 t t a = t"
  by (cases t) (simp add: mix4_def mix_gl_def algebra_simps)

lemma texture2D_solid:
  assumes "0 < w" "0 < h"
  shows "texture2D (solid_frame w h [r, g, b, a]) st
         = Vec4 (unorm8_to_float r) (unorm8_to_float g) (unorm8_to_float b) (unorm8_to_float a)"
proof -
  have wh: "width (solid_frame w h [r, g, b, a]) = w" "height (solid_frame w h [r, g, b, a]) = h"
    by (simp_all add: solid_frame_def)
  show ?thesis
    unfolding texture2D_def Let_def wh
    by (simp add: texel_solid clamp_index_lt assms mix4_same)
qed

lemma concat_replicate_mult:
  "concat (replicate h (concat (replicate w bs))) = concat (replicate (w * h) bs)"
  by (induction h) (simp_all add: replicate_add)

lemma render_solid:
  assumes "0 < w" "0 < h" "canvas_width p = w" "canvas_height p = h"
  shows "renderWithProgram p prog (solid_frame w h [r, g, b, a]) s
         = solid_frame w h (fragment_bytes (run_fragment prog s
             (Vec4 (unorm8_to_float r) (unorm8_to_float g) (unorm8_to_float b) (unorm8_to_float a))))"
proof -
  define F where "F = solid_frame w h [r, g, b, a]"
  define bs where "bs = fragment_bytes (run_fragment prog s
     (Vec4 (unorm8_to_float r) (unorm8_to_float g) (unorm8_to_float b) (unorm8_to_float a)))"
  have f: "fragment_bytes (fragment_at p prog F s x y) = bs" for x y
    by (simp add: fragment_at_def texture2D_solid assms F_def bs_def)
  have d: "data (renderWithProgram p prog F s) = concat (replicate (w * h) bs)"
    unfolding render_data f assms
    by (simp add: map_replicate_const concat_replicate_mult)
  have "renderWithProgram p prog F s
        = \<lparr> width = w, height = h, data = data (renderWithProgram p prog F s) \<rparr>"
    by (simp add: renderWithProgram_def Let_def assms)
  then have "renderWithProgram p prog F s = solid_frame w h bs"
    by (simp add: d solid_frame_def)
  then show ?thesis by (simp add: F_def bs_def)
qed

lemma quantize_nat:
  assumes "k \<le> 255"
  shows "nat \<lfloor>clamp_gl (real k / 255) 0 1 * 255 + 1 / 2\<rfloor> = k"
proof -
  have c: "clamp_gl (real k / 255) 0 1 = real k / 255"
    using assms by (simp add: clamp_gl_def)
  have "\<lfloor>real k + 1 / 2\<rfloor> = int k" by linarith
  then show ?thesis by (simp add: c)
qed

lemma float_to_unorm8_of_byte: "float_to_unorm8 (unorm8_to_float n) = n"
proof -
  have le: "unat n \<le> 255" using unsigned_less[of n, where ?'a = nat] by simp
  show ?thesis
    unfolding float_to_unorm8_def unorm8_to_float_def quantize_nat[OF le] by simp
qed

lemma float_to_unorm8_values:
  "float_to_unorm8 0 = 0" "float_to_unorm8 1 = 255"
  "float_to_unorm8 (7 / 100) = 18" "float_to_unorm8 (65 / 100) = 166"
  by (simp_all add: float_to_unorm8_def clamp_gl_def)

lemma unorm8_to_float_values: "unorm8_to_float 0 = 0" "unorm8_to_float 255 = 1"
  by (simp_all add: unorm8_to_float_def)


lemma green_valMatch: "mask_valMatch GREEN_SCREEN_SETTINGS (Vec4 0 1 0 a) = 0"
  by (simp add: mask_valMatch_def mask_hsv_def rgb2hsv_def Let_def mix4_def mix_gl_def step_gl_def
      preset_fields)

lemma green_mask_alpha: "mask_alpha GREEN_SCREEN_SETTINGS (Vec4 0 1 0 a) = 1"
  by (rule mask_alpha_unkeyed) (simp_all add: green_valMatch preset_fields)

lemma valid_green: "valid_settings GREEN_SCREEN_SETTINGS"
  by (simp add: valid_settings_def preset_fields)


section \<open>Properties of rounding to double precision\<close>

lemma floor_log2_bounds:
  "0 < n \<Longrightarrow> 2 ^ floor_log2 n \<le> n \<and> n < 2 ^ Suc (floor_log2 n)"
proof (induction n rule: floor_log2.induct)
  case (1 n)
  show ?case
  proof (cases "n < 2")
    case True
    with "1.prems" have "n = 1" by simp
    then show ?thesis by (simp add: floor_log2.simps)
  next
    case False
    then have "0 < n div 2" by simp
    from "1.IH"[OF False this]
    have a: "2 ^ floor_log2 (n div 2) \<le> n div 2" and b: "n div 2 < 2 ^ Suc (floor_log2 (n div 2))"
      by simp_all
    have f: "floor_log2 n = Suc (floor_log2 (n div 2))"
      using False by (subst floor_log2.simps) simp
    have "2 * 2 ^ floor_log2 (n div 2) \<le> 2 * (n div 2)" using a by simp
    also have "\<dots> \<le> n" by simp
    finally have lo: "2 ^ floor_log2 n \<le> n" by (simp add: f)
    have "n div 2 + 1 \<le> 2 ^ Suc (floor_log2 (n div 2))" using b by simp
    then have "2 * (n div 2) + 2 \<le> 2 * 2 ^ Suc (floor_log2 (n div 2))" by simp
    moreover have "n < 2 * (n div 2) + 2" by presburger
    ultimately have "n < 2 ^ Suc (floor_log2 n)" by (simp add: f)
    with lo show ?thesis by simp
  qed
qed

lemma ceil_log2_bounds:
  assumes "2 \<le> m"
  shows "m \<le> 2 ^ ceil_log2 m \<and> 2 ^ (ceil_log2 m - 1) < m"
proof -
  have c: "ceil_log2 m = Suc (floor_log2 (m - 1))" using assms by (simp add: ceil_log2_def)
  have "0 < m - 1" using assms by simp
  from floor_log2_bounds[OF this]
  have "2 ^ floor_log2 (m - 1) \<le> m - 1" "m - 1 < 2 ^ Suc (floor_log2 (m - 1))" by simp_all
  define p :: nat where "p = 2 ^ floor_log2 (m - 1)"
  have "p \<le> m - 1" "m - 1 < 2 * p"
    using floor_log2_bounds[OF \<open>0 < m - 1\<close>] by (simp_all add: p_def)
  then have "m \<le> 2 * p" "p < m" using assms by linarith+
  then show ?thesis by (simp add: c p_def)
qed

lemma binade_bounds:
  assumes "0 < x"
  shows "2 powi (binade x) \<le> x \<and> x < 2 powi (binade x + 1)"
proof (cases "1 \<le> x")
  case True
  define n where "n = nat \<lfloor>x\<rfloor>"
  have n0: "0 < n" using True by (simp add: n_def)
  have rn: "real n = of_int \<lfloor>x\<rfloor>" using True by (simp add: n_def)
  have n: "0 < n" "real n \<le> x" "x < real n + 1"
    using n0 unfolding rn by (simp, linarith, linarith)
  from floor_log2_bounds[OF n(1)]
  have a: "2 ^ floor_log2 n \<le> n" and b: "n + 1 \<le> 2 ^ Suc (floor_log2 n)" by simp_all
  have "real (n + 1) \<le> real (2 ^ Suc (floor_log2 n))" using b by (simp only: of_nat_le_iff)
  then have b': "real n + 1 \<le> 2 ^ Suc (floor_log2 n)" by simp
  have "real (2 ^ floor_log2 n) \<le> real n" using a by (simp only: of_nat_le_iff)
  then have a': "(2::real) ^ floor_log2 n \<le> real n" by simp
  have e: "binade x = int (floor_log2 n)" using True by (simp add: binade_def n_def)
  have e1: "binade x + 1 = int (Suc (floor_log2 n))" by (simp add: e)
  show ?thesis
    unfolding e1 unfolding e power_int_of_nat using a' b' n by linarith
next
  case False
  define y where "y = 1 / x"
  define m where "m = nat \<lceil>y\<rceil>"
  have y: "1 < y" using False assms by (simp add: y_def)
  have c2: "2 \<le> \<lceil>y\<rceil>" using y by linarith
  have m2: "2 \<le> m" using nat_mono[OF c2] by (simp add: m_def)
  have rm: "real m = of_int \<lceil>y\<rceil>" using c2 by (simp add: m_def)
  have m: "2 \<le> m" "y \<le> real m" "real m - 1 < y"
    using m2 unfolding rm by (simp, linarith, linarith)
  define k where "k = ceil_log2 m"
  from ceil_log2_bounds[OF m(1)]
  have a: "m \<le> 2 ^ k" and b: "2 ^ (k - 1) < m" by (simp_all add: k_def)
  have kpos: "0 < k" using m(1) by (simp add: k_def ceil_log2_def)
  have "real m \<le> real (2 ^ k)" using a by (simp only: of_nat_le_iff)
  then have a': "real m \<le> 2 ^ k" by simp
  have "2 ^ (k - 1) + 1 \<le> m" using b by simp
  then have "real (2 ^ (k - 1) + 1) \<le> real m" by (simp only: of_nat_le_iff)
  then have b': "(2::real) ^ (k - 1) + 1 \<le> real m" by simp
  have e: "binade x = - int k" using False by (simp add: binade_def k_def m_def y_def)
  have yk: "y \<le> 2 ^ k" using a' m by linarith
  have yk1: "2 ^ (k - 1) < y" using b' m by linarith
  have x: "x = 1 / y" using assms by (simp add: y_def)
  have pk: "(2::real) powi (- int n) = 1 / 2 ^ n" for n
    by (simp only: power_int_minus power_int_of_nat inverse_eq_divide)
  have "1 / 2 ^ k \<le> 1 / y" using yk y by (simp add: frac_le)
  then have lo: "2 powi (- int k) \<le> x" unfolding pk x .
  have k1: "- int k + 1 = - int (k - 1)" using kpos by simp
  have "1 / y < 1 / 2 ^ (k - 1)" using yk1 by (simp add: frac_less2)
  then have hi: "x < 2 powi (- int k + 1)" unfolding k1 pk x .
  show ?thesis unfolding e using lo hi by blast
qed

lemma round_half_even_range: "\<lfloor>x\<rfloor> \<le> round_half_even x \<and> round_half_even x \<le> \<lfloor>x\<rfloor> + 1"
  by (simp add: round_half_even_def Let_def)

lemma round_half_even_of_int: "round_half_even (of_int n) = n"
  by (simp add: round_half_even_def Let_def)

lemma round_half_even_ge:
  assumes "of_int n \<le> x"
  shows "n \<le> round_half_even x"
proof -
  have "n \<le> \<lfloor>x\<rfloor>" using assms by (simp add: le_floor_iff)
  then show ?thesis using round_half_even_range[of x] by linarith
qed

lemma round_half_even_le:
  assumes "x \<le> of_int n"
  shows "round_half_even x \<le> n"
proof (cases "x = of_int n")
  case True
  then show ?thesis by (simp add: round_half_even_of_int)
next
  case False
  with assms have "x < of_int n" by simp
  then have "\<lfloor>x\<rfloor> < n" by (simp add: floor_less_iff)
  then show ?thesis using round_half_even_range[of x] by linarith
qed

lemma round_half_even_mono:
  assumes "x \<le> y"
  shows "round_half_even x \<le> round_half_even y"
proof (cases "\<lfloor>x\<rfloor> = \<lfloor>y\<rfloor>")
  case True
  define f where "f = \<lfloor>y\<rfloor>"
  have fx: "\<lfloor>x\<rfloor> = f" using True by (simp add: f_def)
  have r: "x - of_int f \<le> y - of_int f" using assms by simp
  show ?thesis
    unfolding round_half_even_def Let_def fx f_def[symmetric]
    using r by (simp split: if_splits)
next
  case False
  have "\<lfloor>x\<rfloor> \<le> \<lfloor>y\<rfloor>" using assms by (rule floor_mono)
  with False have "\<lfloor>x\<rfloor> + 1 \<le> \<lfloor>y\<rfloor>" by simp
  then show ?thesis using round_half_even_range[of x] round_half_even_range[of y] by linarith
qed

lemma to_double_pos:
  assumes "0 < x"
  shows "to_double x = of_int (round_half_even (x / 2 powi (binade_clamped x - 52))) * 2 powi (binade_clamped x - 52)"
  using assms by (simp add: to_double_def Let_def)

lemma to_double_nonneg: "0 \<le> x \<Longrightarrow> 0 \<le> to_double x"
proof (cases "x = 0")
  case True
  then show ?thesis by (simp add: to_double_def)
next
  case False
  assume "0 \<le> x"
  with False have x: "0 < x" by simp
  have u: "0 < (2::real) powi (binade_clamped x - 52)" by simp
  have "0 \<le> x / 2 powi (binade_clamped x - 52)" using x u by simp
  then have "0 \<le> round_half_even (x / 2 powi (binade_clamped x - 52))"
    using round_half_even_ge[of 0] by simp
  then show ?thesis unfolding to_double_pos[OF x] using u by simp
qed

lemma powi_split: "(2::real) powi (e + 1) = 2 ^ 53 * 2 powi (e - 52)"
proof -
  have "(2::real) powi (53 + (e - 52)) = 2 powi 53 * 2 powi (e - 52)"
    by (rule power_int_add) simp
  moreover have "53 + (e - 52) = e + 1" by simp
  ultimately show ?thesis by (simp only: power_int_numeral)
qed

lemma powi_split0: "(2::real) powi e = 2 ^ 52 * 2 powi (e - 52)"
proof -
  have "(2::real) powi (52 + (e - 52)) = 2 powi 52 * 2 powi (e - 52)"
    by (rule power_int_add) simp
  moreover have "52 + (e - 52) = e" by simp
  ultimately show ?thesis by (simp only: power_int_numeral)
qed

lemma to_double_upper:
  assumes "0 < x"
  shows "to_double x \<le> 2 powi (binade_clamped x + 1)"
proof -
  define e where "e = binade_clamped x"
  define u :: real where "u = 2 powi (e - 52)"
  have u: "0 < u" by (simp add: u_def)
  have "binade x + 1 \<le> e + 1" by (simp add: e_def binade_clamped_def)
  then have "(2::real) powi (binade x + 1) \<le> 2 powi (e + 1)"
    by (intro power_int_increasing) simp_all
  with binade_bounds[OF assms] have "x \<le> 2 powi (e + 1)" by linarith
  then have "x \<le> 2 ^ 53 * u" unfolding powi_split u_def .
  then have "x / u \<le> of_int (2 ^ 53)" using u by (simp add: divide_le_eq)
  then have "round_half_even (x / u) \<le> 2 ^ 53" by (rule round_half_even_le)
  then have "real_of_int (round_half_even (x / u)) \<le> 2 ^ 53"
    by (metis of_int_le_iff of_int_numeral of_int_power)
  then have "real_of_int (round_half_even (x / u)) * u \<le> 2 ^ 53 * u"
    using u by (simp add: mult_right_mono)
  then show ?thesis
    unfolding to_double_pos[OF assms] e_def[symmetric] u_def[symmetric] powi_split[of e] u_def[symmetric] .
qed

lemma to_double_lower:
  assumes "0 < x" "- 1022 \<le> binade x"
  shows "2 powi (binade_clamped x) \<le> to_double x"
proof -
  define e where "e = binade_clamped x"
  define u :: real where "u = 2 powi (e - 52)"
  have u: "0 < u" by (simp add: u_def)
  have eb: "e = binade x" using assms(2) by (simp add: e_def binade_clamped_def)
  have "2 powi e \<le> x" using binade_bounds[OF assms(1)] by (simp add: eb)
  then have "2 ^ 52 * u \<le> x" unfolding powi_split0[of e] u_def .
  then have "of_int (2 ^ 52) \<le> x / u" using u by (simp add: le_divide_eq)
  then have "2 ^ 52 \<le> round_half_even (x / u)" by (rule round_half_even_ge)
  then have "2 ^ 52 \<le> real_of_int (round_half_even (x / u))"
    by (metis of_int_le_iff of_int_numeral of_int_power)
  then have "2 ^ 52 * u \<le> real_of_int (round_half_even (x / u)) * u"
    using u by (simp add: mult_right_mono)
  then show ?thesis
    unfolding to_double_pos[OF assms(1)] e_def[symmetric] u_def[symmetric] powi_split0[of e] u_def[symmetric] .
qed

lemma binade_mono:
  assumes "0 < x" "x \<le> y"
  shows "binade x \<le> binade y"
proof (rule ccontr)
  assume "\<not> binade x \<le> binade y"
  then have "binade y + 1 \<le> binade x" by simp
  then have "(2::real) powi (binade y + 1) \<le> 2 powi (binade x)"
    by (intro power_int_increasing) simp_all
  moreover have "0 < y" using assms by simp
  ultimately show False
    using binade_bounds[OF assms(1)] binade_bounds[OF \<open>0 < y\<close>] assms(2) by linarith
qed

lemma to_double_mono:
  assumes "0 \<le> x" "x \<le> y"
  shows "to_double x \<le> to_double y"
proof (cases "x = 0")
  case True
  have "0 \<le> to_double y" using assms by (intro to_double_nonneg) simp
  then show ?thesis using True by (simp add: to_double_def)
next
  case False
  with assms have x: "0 < x" and y: "0 < y" by simp_all
  have le: "binade_clamped x \<le> binade_clamped y"
    using binade_mono[OF x assms(2)] by (simp add: binade_clamped_def)
  show ?thesis
  proof (cases "binade_clamped x = binade_clamped y")
    case True
    define u :: real where "u = 2 powi (binade_clamped y - 52)"
    have u: "0 < u" by (simp add: u_def)
    have "x / u \<le> y / u" using assms(2) u by (simp add: divide_right_mono)
    then have "round_half_even (x / u) \<le> round_half_even (y / u)" by (rule round_half_even_mono)
    then have "real_of_int (round_half_even (x / u)) * u \<le> real_of_int (round_half_even (y / u)) * u"
      using u by (simp add: mult_right_mono)
    then show ?thesis
      unfolding to_double_pos[OF x] to_double_pos[OF y] True u_def[symmetric] .
  next
    case False
    with le have lt: "binade_clamped x + 1 \<le> binade_clamped y" by simp
    then have "- 1022 < binade_clamped y" by (simp add: binade_clamped_def)
    then have bnd: "- 1022 \<le> binade y" by (simp add: binade_clamped_def max_def split: if_splits)
    have "to_double x \<le> 2 powi (binade_clamped x + 1)" by (rule to_double_upper[OF x])
    also have "\<dots> \<le> 2 powi (binade_clamped y)"
      using lt by (intro power_int_increasing) simp_all
    also have "\<dots> \<le> to_double y" by (rule to_double_lower[OF y bnd])
    finally show ?thesis .
  qed
qed

lemma js_times_mono:
  assumes "0 \<le> a" "a \<le> b" "0 \<le> c"
  shows "js_times a c \<le> js_times b c"
proof -
  have "to_double a \<le> to_double b" by (rule to_double_mono[OF assms(1,2)])
  moreover have "0 \<le> to_double c" "0 \<le> to_double a"
    using assms by (simp_all add: to_double_nonneg)
  ultimately have "0 \<le> to_double a * to_double c" "to_double a * to_double c \<le> to_double b * to_double c"
    by (simp_all add: mult_right_mono)
  then show ?thesis unfolding js_times_def by (rule to_double_mono)
qed

lemma binade_values:
  "binade 1 = 0" "binade 2 = 1" "binade 25 = 4" "binade (1 / 2) = - 1"
  "binade (1080863910568919 / 2 ^ 53) = - 4" "binade (27021597764222975 / 2 ^ 53) = 1"
  by (simp_all add: binade_def ceil_log2_def floor_log2.simps)

lemma to_double_eval:
  assumes "0 < x" "binade x = e" "- 1022 \<le> e"
  shows "to_double x = of_int (round_half_even (x / 2 powi (e - 52))) * 2 powi (e - 52)"
  using assms by (simp add: to_double_pos binade_clamped_def)

lemma to_double_small:
  "to_double 0 = 0" "to_double 1 = 1" "to_double 2 = 2" "to_double 25 = 25"
  "to_double (1 / 2) = 1 / 2"
proof -
  show "to_double 0 = 0" by (simp add: to_double_def)
  show "to_double 1 = 1"
    by (subst to_double_eval[OF _ binade_values(1)]) (simp_all add: round_half_even_def Let_def)
  show "to_double 2 = 2"
    by (subst to_double_eval[OF _ binade_values(2)]) (simp_all add: round_half_even_def Let_def)
  show "to_double 25 = 25"
    by (subst to_double_eval[OF _ binade_values(3)]) (simp_all add: round_half_even_def Let_def)
  show "to_double (1 / 2) = 1 / 2"
    by (subst to_double_eval[OF _ binade_values(4)]) (simp_all add: round_half_even_def Let_def)
qed

lemma to_double_tenth: "to_double (1080863910568919 / 2 ^ 53) = 1080863910568919 / 2 ^ 53"
  by (subst to_double_eval[OF _ binade_values(5)]) (simp_all add: round_half_even_def Let_def)

lemma js_times_example: "js_times (1080863910568919 / 2 ^ 53) 25 = 3"
proof -
  have p: "1080863910568919 / 2 ^ 53 * 25 = (27021597764222975 / 2 ^ 53 :: real)" by simp
  have "to_double (27021597764222975 / 2 ^ 53) = 3"
    by (subst to_double_eval[OF _ binade_values(6)]) (simp_all add: round_half_even_def Let_def)
  then show ?thesis
    unfolding js_times_def to_double_tenth to_double_small p .
qed


section \<open>Properties of the frame loops\<close>

lemma processFrames_loop_closed:
  "processFrames_loop p settings frames i (ms, bs, tr) =
     (ms @ map (\<lambda>f. mask (processFrameAll p f settings)) (drop i frames),
      bs @ map (\<lambda>f. black (processFrameAll p f settings)) (drop i frames),
      tr @ concat (map (\<lambda>k. Progress (k + 1) (length frames) # (if k mod 5 = 0 then [Yield] else []))
                       [i..<length frames]))"
proof (induction p settings frames i "(ms, bs, tr)" arbitrary: ms bs tr rule: processFrames_loop.induct)
  case (1 p settings frames i maskFrames blackFrames trace)
  show ?case
  proof (cases "i < length frames")
    case True
    have d: "drop i frames = frames ! i # drop (Suc i) frames"
      using True by (simp add: Cons_nth_drop_Suc)
    have u: "[i..<length frames] = i # [Suc i..<length frames]"
      using True by (simp add: upt_conv_Cons)
    show ?thesis
      apply (subst processFrames_loop.simps)
      apply (simp only: True if_True Let_def)
      apply (subst "1.hyps"[OF True refl])
      apply (simp add: d u)
      done
  next
    case False
    then show ?thesis by (subst processFrames_loop.simps) simp
  qed
qed

lemma new_processor_ok:
  "gpu_available env \<Longrightarrow> new_ChromaKeyProcessor env w h = Inr \<lparr> canvas_width = w, canvas_height = h \<rparr>"
  by (simp add: gpu_available_def new_ChromaKeyProcessor_def)

lemma processFrames_closed:
  assumes "gpu_available env" "frames \<noteq> []"
  shows "processFrames env frames colorType =
     (let p = \<lparr> canvas_width = width (frames ! 0), canvas_height = height (frames ! 0) \<rparr>;
          s = (if colorType = Green then GREEN_SCREEN_SETTINGS else BLUE_SCREEN_SETTINGS)
      in (Inr (map (\<lambda>f. mask (processFrameAll p f s)) frames,
               map (\<lambda>f. black (processFrameAll p f s)) frames),
          NewContext (width (frames ! 0)) (height (frames ! 0)) #
          concat (map (\<lambda>k. Progress (k + 1) (length frames) # (if k mod 5 = 0 then [Yield] else []))
                      [0..<length frames]) @ [DestroyContext]))"
  using assms
  by (simp add: processFrames_def Let_def new_processor_ok processFrames_loop_closed)

lemma drawNextFrame_closed:
  "frameIndex \<le> length frames \<Longrightarrow>
   drawNextFrame reqFrame now frameInterval frames (frameIndex, nextFrameTime, reads, tr) =
     tr @ concat (map (\<lambda>k. frame_events reqFrame (length frames) k
                         (max 0 (nextFrameTime + real (k + 1 - frameIndex) * frameInterval
                                  - now (reads + 2 * (k - frameIndex) + 1))))
                      [frameIndex..<length frames])
        @ [ScheduleStop 100, RecorderStop]"
proof (induction reqFrame now frameInterval frames "(frameIndex, nextFrameTime, reads, tr)"
       arbitrary: frameIndex nextFrameTime reads tr rule: drawNextFrame.induct)
  case (1 reqFrame now frameInterval frames frameIndex nextFrameTime reads trace)
  show ?case
  proof (cases "frameIndex \<ge> length frames")
    case True
    with "1.prems" have "frameIndex = length frames" by simp
    then show ?thesis by (subst drawNextFrame.simps) simp
  next
    case False
    then have lt: "frameIndex < length frames" by simp
    have u: "[frameIndex..<length frames] = frameIndex # [frameIndex + 1..<length frames]"
      using lt by (simp add: upt_conv_Cons)
    have shift: "map (\<lambda>k. frame_events reqFrame (length frames) k
                         (max 0 (nextFrameTime + frameInterval + real (k + 1 - (frameIndex + 1)) * frameInterval
                                  - now (reads + 2 + 2 * (k - (frameIndex + 1)) + 1))))
                      [frameIndex + 1..<length frames]
               = map (\<lambda>k. frame_events reqFrame (length frames) k
                         (max 0 (nextFrameTime + real (k + 1 - frameIndex) * frameInterval
                                  - now (reads + 2 * (k - frameIndex) + 1))))
                      [frameIndex + 1..<length frames]"
    proof (rule map_cong[OF refl])
      fix k assume "k \<in> set [frameIndex + 1..<length frames]"
      then have k: "frameIndex < k" by simp
      then have a: "real (k + 1 - frameIndex) = real (k + 1 - (frameIndex + 1)) + 1"
        by (simp add: of_nat_diff)
      have b: "reads + 2 + 2 * (k - (frameIndex + 1)) + 1 = reads + 2 * (k - frameIndex) + 1"
        using k by simp
      show "frame_events reqFrame (length frames) k
              (max 0 (nextFrameTime + frameInterval + real (k + 1 - (frameIndex + 1)) * frameInterval
                       - now (reads + 2 + 2 * (k - (frameIndex + 1)) + 1)))
            = frame_events reqFrame (length frames) k
              (max 0 (nextFrameTime + real (k + 1 - frameIndex) * frameInterval
                       - now (reads + 2 * (k - frameIndex) + 1)))"
        unfolding a b by (simp add: algebra_simps)
    qed
    note IH = "1.hyps"[OF False refl refl refl refl]
    have nxt: "frameIndex + 1 \<le> length frames" using lt by simp
    show ?thesis
      apply (subst drawNextFrame.simps)
      apply (simp only: False if_False Let_def)
      apply (subst IH[OF nxt])
      apply (simp only: u shift)
      apply (simp add: frame_events_def)
      done
  qed
qed

lemma drawn_frames_append: "drawn_frames (xs @ ys) = drawn_frames xs @ drawn_frames ys"
  by (simp add: drawn_frames_def)

lemma sleeps_append: "sleeps (xs @ ys) = sleeps xs @ sleeps ys"
  by (simp add: sleeps_def)

lemma drawn_frames_ends:
  "drawn_frames (RecorderStart # xs) = drawn_frames xs"
  "drawn_frames [ScheduleStop d, RecorderStop] = []"
  by (simp_all add: drawn_frames_def)

lemma sleeps_ends:
  "sleeps (RecorderStart # xs) = sleeps xs"
  "sleeps [ScheduleStop d, RecorderStop] = []"
  by (simp_all add: sleeps_def)

lemma drawn_frames_concat:
  "drawn_frames (concat (map (\<lambda>k. frame_events rq n k (d k)) ks)) = ks"
  by (induction ks) (simp_all add: drawn_frames_append, simp_all add: drawn_frames_def frame_events_def)

lemma sleeps_concat:
  "sleeps (concat (map (\<lambda>k. frame_events rq n k (d k)) ks)) = map d ks"
  by (induction ks) (simp_all add: sleeps_append, simp_all add: sleeps_def frame_events_def)

lemma createVideo_closed:
  assumes "frames \<noteq> []" "canvas2d_ok env"
  shows "createVideo env now fps frames =
     (Inr (Blob ''video/webm''),
      RecorderStart #
      concat (map (\<lambda>k. frame_events (has_requestFrame env) (length frames) k
                          (max 0 (emission_target (now 0) fps (k + 1) - now (2 * k + 2))))
                  [0..<length frames])
      @ [ScheduleStop 100, RecorderStop])"
  using assms
  by (simp add: createVideo_def Let_def drawNextFrame_closed emission_target_def)

lemma extractFrames_loop_count:
  "extractFrames_loop v fi (Count n) i acc =
     Some (fst acc @ map (\<lambda>k. capture v (js_times (real k) fi)) [i..<nat n],
           snd acc @ concat (map (\<lambda>k. [SeekTo (js_times (real k) fi), ExtractProgress (k + 1) (Count n)])
                                 [i..<nat n]))"
proof (induction "nat n - i" arbitrary: i acc)
  case 0
  then have "\<not> int i < n" by linarith
  moreover have "[i..<nat n] = []" using 0 by simp
  ultimately show ?case
    by (subst extractFrames_loop.simps) (simp add: index_below_def)
next
  case (Suc m)
  then have lt: "i < nat n" by simp
  then have b: "index_below i (Count n)" by (simp add: index_below_def)
  have u: "[i..<nat n] = i # [i + 1..<nat n]" using lt by (simp add: upt_conv_Cons)
  have m: "m = nat n - (i + 1)" using Suc(2) by simp
  show ?case
    apply (subst extractFrames_loop.simps)
    apply (simp only: b if_True Let_def)
    apply (subst Suc(1)[OF m])
    apply (simp add: u)
    done
qed

lemma extractFrames_loop_nan: "extractFrames_loop v fi CountNaN i acc = Some acc"
  by (subst extractFrames_loop.simps) (simp add: index_below_def)

lemma extractFrames_loop_neg: "extractFrames_loop v fi CountNegInfinity i acc = Some acc"
  by (subst extractFrames_loop.simps) (simp add: index_below_def)

lemma extractFrames_closed:
  assumes "canvas2d_ok env" "duration v = Seconds d" "js_times d fps \<le> 2 ^ 53"
  shows "extractFrames env fps v =
     Some (Inr (map (\<lambda>i. capture v (js_times (real i) (js_divide 1 fps)))
                    [0..<nat \<lfloor>js_times d fps\<rfloor>]),
           concat (map (\<lambda>i. [SeekTo (js_times (real i) (js_divide 1 fps)),
                              ExtractProgress (i + 1) (Count \<lfloor>js_times d fps\<rfloor>)])
                       [0..<nat \<lfloor>js_times d fps\<rfloor>]))"
proof -
  have "(2::real) ^ 53 < 2 ^ 1024" by (rule power_strict_increasing) simp_all
  with assms(3) have fin: "\<not> 2 ^ 1024 \<le> js_times d fps" by linarith
  show ?thesis
  proof (cases "js_times d fps \<le> - (2 ^ 1024)")
    case True
    have "(0::real) \<le> 2 ^ 1024" by simp
    with True have "js_times d fps \<le> 0" by linarith
    then have "nat \<lfloor>js_times d fps\<rfloor> = 0" by (simp add: floor_le_zero)
    then show ?thesis
      using assms(1,2) fin True
      by (simp add: extractFrames_def Let_def totalFrames_of_def extractFrames_loop_neg)
  next
    case False
    then show ?thesis
      using assms(1,2) fin
      by (simp add: extractFrames_def Let_def totalFrames_of_def extractFrames_loop_count)
  qed
qed

lemma seek_times_mono:
  assumes "0 < fps" "i \<le> j"
  shows "js_times (real i) (js_divide 1 fps) \<le> js_times (real j) (js_divide 1 fps)"
proof -
  have "0 \<le> to_double fps" using assms(1) by (intro to_double_nonneg) simp
  then have "0 \<le> to_double 1 / to_double fps" by (simp add: to_double_small)
  then have "0 \<le> js_divide 1 fps" unfolding js_divide_def by (rule to_double_nonneg)
  then show ?thesis using assms(2) by (intro js_times_mono) simp_all
qed

lemma upt_two: "[0..<2] = [0, Suc 0]"
  by (simp add: numeral_2_eq_2)


section \<open>Frames of one colour\<close>

lemma spread_bounds:
  fixes r g b :: real
  assumes "max (max r g) b \<noteq> min (min r g) b"
  shows "0 < max (max r g) b - min (min r g) b"
    and "r \<le> max (max r g) b" "g \<le> max (max r g) b" "b \<le> max (max r g) b"
    and "min (min r g) b \<le> r" "min (min r g) b \<le> g" "min (min r g) b \<le> b"
  using assms by (auto simp: max_def min_def split: if_splits)

lemma ratio_bound:
  fixes x d :: real
  assumes "0 < d" "x \<le> d" "- d \<le> x"
  shows "- 1 \<le> x / d" "x / d \<le> 1"
  using assms by (simp_all add: le_divide_eq divide_le_eq)

lemma hue_210:
  assumes "hsl_h (rgbToHsl (RGB R G B)) = 210"
  shows "R < B \<and> 2 * G = R + B"
proof -
  define r g b where "r = R / 255" and "g = G / 255" and "b = B / 255"
  define mx mn where "mx = max (max r g) b" and "mn = min (min r g) b"
  define d where "d = mx - mn"
  define t1 t2 t3 where "t1 = (g - b) / d" and "t2 = (b - r) / d" and "t3 = (r - g) / d"
  have unf: "rgbToHsl (RGB R G B) =
      (if mx \<noteq> mn then
         HSL ((if mx = r then (t1 + (if g < b then 6 else 0)) / 6
               else if mx = g then (t2 + 2) / 6
               else (t3 + 4) / 6) * 360)
             ((if (mx + mn) / 2 > 1 / 2 then d / (2 - mx - mn) else d / (mx + mn)) * 100)
             ((mx + mn) / 2 * 100)
       else HSL (0 * 360) (0 * 100) ((mx + mn) / 2 * 100))"
    unfolding rgbToHsl_def Let_def r_def g_def b_def mx_def mn_def d_def t1_def t2_def t3_def
    by simp
  have ne: "mx \<noteq> mn"
  proof
    assume "mx = mn"
    then have "hsl_h (rgbToHsl (RGB R G B)) = 0" unfolding unf by simp
    with assms show False by simp
  qed
  note sb = spread_bounds[of r g b, folded mx_def mn_def, OF ne, folded d_def]
  have dpos: "0 < d" by (rule sb(1))
  have h: "(if mx = r then (t1 + (if g < b then 6 else 0)) / 6
            else if mx = g then (t2 + 2) / 6
            else (t3 + 4) / 6) * 360 = 210"
    using assms ne unfolding unf by simp
  have q1: "- 1 \<le> t1" "t1 \<le> 1" unfolding t1_def
    by (rule ratio_bound[OF dpos]; use sb in \<open>simp add: d_def\<close>)+
  have q2: "- 1 \<le> t2" "t2 \<le> 1" unfolding t2_def
    by (rule ratio_bound[OF dpos]; use sb in \<open>simp add: d_def\<close>)+
  have gb: "g < b \<Longrightarrow> t1 < 0" "\<not> g < b \<Longrightarrow> 0 \<le> t1"
    using dpos by (simp_all add: t1_def divide_less_0_iff)
  have notr: "mx \<noteq> r"
  proof
    assume "mx = r"
    with h have "(t1 + (if g < b then 6 else 0)) / 6 * 360 = 210" by simp
    then show False using q1 gb by (cases "g < b") simp_all
  qed
  have notg: "mx \<noteq> g"
  proof
    assume "mx = g"
    with h notr have "(t2 + 2) / 6 * 360 = 210" by simp
    then show False using q2 by simp
  qed
  from h notr notg have "(t3 + 4) / 6 * 360 = 210" by simp
  then have e: "t3 = - 1 / 2" by simp
  then have e': "g - r = d / 2" using dpos by (simp add: t3_def field_simps)
  have mxb: "mx = b" using notr notg unfolding mx_def by (simp add: max_def split: if_splits)
  have rg: "r < g" using e' dpos by simp
  have "mn = r" using sb(5,6,7) rg mxb notr unfolding mn_def mx_def
    by (simp add: min_def max_def split: if_splits)
  then have "d = b - r" using mxb by (simp add: d_def)
  with e' dpos have "r < b \<and> 2 * g = r + b" by simp
  then show ?thesis by (simp add: r_def g_def b_def)
qed


lemma hue_330:
  assumes "hsl_h (rgbToHsl (RGB R G B)) = 330"
  shows "G < R \<and> 2 * B = R + G"
proof -
  define r g b where "r = R / 255" and "g = G / 255" and "b = B / 255"
  define mx mn where "mx = max (max r g) b" and "mn = min (min r g) b"
  define d where "d = mx - mn"
  define t1 t2 t3 where "t1 = (g - b) / d" and "t2 = (b - r) / d" and "t3 = (r - g) / d"
  have unf: "rgbToHsl (RGB R G B) =
      (if mx \<noteq> mn then
         HSL ((if mx = r then (t1 + (if g < b then 6 else 0)) / 6
               else if mx = g then (t2 + 2) / 6
               else (t3 + 4) / 6) * 360)
             ((if (mx + mn) / 2 > 1 / 2 then d / (2 - mx - mn) else d / (mx + mn)) * 100)
             ((mx + mn) / 2 * 100)
       else HSL (0 * 360) (0 * 100) ((mx + mn) / 2 * 100))"
    unfolding rgbToHsl_def Let_def r_def g_def b_def mx_def mn_def d_def t1_def t2_def t3_def
    by simp
  have ne: "mx \<noteq> mn"
  proof
    assume "mx = mn"
    then have "hsl_h (rgbToHsl (RGB R G B)) = 0" unfolding unf by simp
    with assms show False by simp
  qed
  note sb = spread_bounds[of r g b, folded mx_def mn_def, OF ne, folded d_def]
  have dpos: "0 < d" by (rule sb(1))
  have h: "(if mx = r then (t1 + (if g < b then 6 else 0)) / 6
            else if mx = g then (t2 + 2) / 6
            else (t3 + 4) / 6) * 360 = 330"
    using assms ne unfolding unf by simp
  have q1: "- 1 \<le> t1" "t1 \<le> 1" unfolding t1_def
    by (rule ratio_bound[OF dpos]; use sb in \<open>simp add: d_def\<close>)+
  have q2: "- 1 \<le> t2" "t2 \<le> 1" unfolding t2_def
    by (rule ratio_bound[OF dpos]; use sb in \<open>simp add: d_def\<close>)+
  have q3: "- 1 \<le> t3" "t3 \<le> 1" unfolding t3_def
    by (rule ratio_bound[OF dpos]; use sb in \<open>simp add: d_def\<close>)+
  have isr: "mx = r"
  proof (rule ccontr)
    assume n: "mx \<noteq> r"
    show False
    proof (cases "mx = g")
      case True
      with h n have "(t2 + 2) / 6 * 360 = 330" by simp
      then show False using q2 by simp
    next
      case False
      with h n have "(t3 + 4) / 6 * 360 = 330" by simp
      then show False using q3 by simp
    qed
  qed
  with h have h1: "(t1 + (if g < b then 6 else 0)) / 6 * 360 = 330" by simp
  have gb: "g < b"
  proof (rule ccontr)
    assume "\<not> g < b"
    with h1 have "t1 / 6 * 360 = 330" by simp
    then show False using q1 by simp
  qed
  with h1 have "(t1 + 6) / 6 * 360 = 330" by simp
  then have e: "t1 = - 1 / 2" by simp
  then have e': "b - g = d / 2" using dpos by (simp add: t1_def field_simps)
  have "mn = g" using sb(5,6,7) sb(2,3,4) gb isr unfolding mn_def
    by (simp add: min_def split: if_splits)
  then have "d = r - g" using isr by (simp add: d_def)
  with e' dpos have "g < r \<and> 2 * b = r + g" by simp
  then show ?thesis by (simp add: r_def g_def b_def)
qed

lemma green_orthogonal_pixel:
  assumes "r < b" "2 * g = r + b" "b \<le> 1"
  shows "maskFragmentShader GREEN_SCREEN_SETTINGS (Vec4 r g b a) = Vec4 1 1 1 1"
    and "blackBgFragmentShader GREEN_SCREEN_SETTINGS (Vec4 r g b a) = Vec4 r g b 1"
proof -
  have "g - max r b \<le> 0" using assms by simp
  then have dom: "mask_dominance GREEN_SCREEN_SETTINGS (Vec4 r g b a) = 0"
    by (simp add: mask_dominance_def preset_fields smoothstep_low)
  have al: "mask_alpha GREEN_SCREEN_SETTINGS (Vec4 r g b a) = 1"
    by (rule mask_alpha_unkeyed) (simp_all add: dom preset_fields)
  show "maskFragmentShader GREEN_SCREEN_SETTINGS (Vec4 r g b a) = Vec4 1 1 1 1"
    by (simp add: maskFragmentShader_def al)
  have al2: "blackBg_alpha GREEN_SCREEN_SETTINGS (Vec4 r g b a) = 1"
    using al by (simp add: blackBg_alpha_ref mask_alpha_ref)
  have ex: "max 0 (g - (r + b) / 2) = 0" using assms by simp
  have rb: "min 1 r = r" "min 1 b = b" using assms by simp_all
  show "blackBgFragmentShader GREEN_SCREEN_SETTINGS (Vec4 r g b a) = Vec4 r g b 1"
    unfolding blackBgFragmentShader_def Let_def al2 suppressSpill_def preset_fields
    by (simp add: ex rb)
qed

lemma blue_orthogonal_pixel:
  assumes "g < r" "2 * b = r + g" "r \<le> 1"
  shows "maskFragmentShader BLUE_SCREEN_SETTINGS (Vec4 r g b a) = Vec4 1 1 1 1"
    and "blackBgFragmentShader BLUE_SCREEN_SETTINGS (Vec4 r g b a) = Vec4 r g b 1"
proof -
  have "b - max r g \<le> 0" using assms by simp
  then have dom: "mask_dominance BLUE_SCREEN_SETTINGS (Vec4 r g b a) = 0"
    by (simp add: mask_dominance_def preset_fields smoothstep_low)
  have al: "mask_alpha BLUE_SCREEN_SETTINGS (Vec4 r g b a) = 1"
    by (rule mask_alpha_unkeyed) (simp_all add: dom preset_fields)
  show "maskFragmentShader BLUE_SCREEN_SETTINGS (Vec4 r g b a) = Vec4 1 1 1 1"
    by (simp add: maskFragmentShader_def al)
  have al2: "blackBg_alpha BLUE_SCREEN_SETTINGS (Vec4 r g b a) = 1"
    using al by (simp add: blackBg_alpha_ref mask_alpha_ref)
  have ex: "max 0 (b - (r + g) / 2) = 0" using assms by simp
  have rb: "min 1 r = r" "min 1 g = g" using assms by simp_all
  show "blackBgFragmentShader BLUE_SCREEN_SETTINGS (Vec4 r g b a) = Vec4 r g b 1"
    unfolding blackBgFragmentShader_def Let_def al2 suppressSpill_def preset_fields
    by (simp add: ex rb)
qed

lemma unorm8_le_1: "unorm8_to_float n \<le> 1"
proof -
  have "unat n \<le> 255" using unsigned_less[of n, where ?'a = nat] by simp
  then have "real (unat n) \<le> 255" by (metis of_nat_le_iff of_nat_numeral)
  then show ?thesis unfolding unorm8_to_float_def by (simp add: divide_le_eq)
qed

lemma fragment_bytes_of_bytes:
  "fragment_bytes (Vec4 (unorm8_to_float r) (unorm8_to_float g) (unorm8_to_float b) 1)
   = [r, g, b, 255]"
  by (simp add: fragment_bytes_def float_to_unorm8_of_byte float_to_unorm8_values)

lemma fragment_bytes_white: "fragment_bytes (Vec4 1 1 1 1) = [255, 255, 255, 255]"
  by (simp add: fragment_bytes_def float_to_unorm8_values)

lemma green_composite:
  "blackBgFragmentShader GREEN_SCREEN_SETTINGS (Vec4 0 1 0 a) = Vec4 (7 / 100) (65 / 100) (7 / 100) 1"
proof -
  have al: "blackBg_alpha GREEN_SCREEN_SETTINGS (Vec4 0 1 0 a) = 1"
    using green_mask_alpha by (simp add: blackBg_alpha_ref mask_alpha_ref)
  show ?thesis
    unfolding blackBgFragmentShader_def Let_def al suppressSpill_def preset_fields
    by simp
qed

lemma green_family_hsv:
  assumes "0 < g"
  shows "rgb2hsv (Vec3 0 g 0) = Vec3 (1 / 3) (g / (g + 1 / 10 ^ 10)) g"
  using assms by (simp add: rgb2hsv_def Let_def mix4_def mix_gl_def step_gl_def)

lemma keyed_green_alpha:
  assumes "1 / 10 \<le> g" "g \<le> 98 / 100"
  shows "mask_alpha GREEN_SCREEN_SETTINGS (Vec4 0 g 0 a) = 0"
proof -
  have g0: "0 < g" using assms by simp
  have hsv: "mask_hsv (Vec4 0 g 0 a) = Vec3 (1 / 3) (g / (g + 1 / 10 ^ 10)) g"
    by (simp add: mask_hsv_def green_family_hsv[OF g0])
  have hd: "mask_hueDiff GREEN_SCREEN_SETTINGS (Vec4 0 g 0 a) = 0"
    by (simp add: mask_hueDiff_def hsv preset_fields Let_def)
  have hm: "mask_hueMatch GREEN_SCREEN_SETTINGS (Vec4 0 g 0 a) = 1"
    by (simp add: mask_hueMatch_def hd preset_fields smoothstep_low)
  have "15 / 100 * (g + 1 / 10 ^ 10) \<le> g" using assms by simp
  then have sat: "15 / 100 \<le> g / (g + 1 / 10 ^ 10)"
    using g0 by (simp add: le_divide_eq)
  have sm: "mask_satMatch GREEN_SCREEN_SETTINGS (Vec4 0 g 0 a) = 1"
    unfolding mask_satMatch_def hsv Let_def preset_fields
    by (rule smoothstep_high) (use sat in simp_all)
  have vm: "mask_valMatch GREEN_SCREEN_SETTINGS (Vec4 0 g 0 a) = 1"
    using assms by (simp add: mask_valMatch_def hsv Let_def preset_fields step_gl_def)
  have dm: "mask_dominance GREEN_SCREEN_SETTINGS (Vec4 0 g 0 a) = 1"
    using assms by (simp add: mask_dominance_def preset_fields smoothstep_high)
  show ?thesis
    by (rule mask_alpha_keyed) (simp_all add: hm sm vm dm preset_fields)
qed

lemma keyed_green_composite:
  assumes "1 / 10 \<le> g" "g \<le> 98 / 100"
  shows "blackBgFragmentShader GREEN_SCREEN_SETTINGS (Vec4 0 g 0 a) = Vec4 0 0 0 1"
proof -
  have al: "blackBg_alpha GREEN_SCREEN_SETTINGS (Vec4 0 g 0 a) = 0"
    using keyed_green_alpha[OF assms] by (simp add: blackBg_alpha_ref mask_alpha_ref)
  show ?thesis
    unfolding blackBgFragmentShader_def Let_def al by simp
qed

lemma byte_in_value_window:
  assumes "26 \<le> unat g" "unat g \<le> 249"
  shows "1 / 10 \<le> unorm8_to_float g" "unorm8_to_float g \<le> 98 / 100"
proof -
  have "real 26 \<le> real (unat g)" "real (unat g) \<le> real 249"
    using assms by (simp_all only: of_nat_le_iff)
  then show "1 / 10 \<le> unorm8_to_float g" "unorm8_to_float g \<le> 98 / 100"
    unfolding unorm8_to_float_def by (simp_all add: le_divide_eq divide_le_eq)
qed

lemma fragment_bytes_values:
  "fragment_bytes (Vec4 0 0 0 1) = [0, 0, 0, 255]"
  "fragment_bytes (Vec4 (7 / 100) (13 / 20) (7 / 100) 1) = [18, 166, 18, 255]"
  by (simp_all add: fragment_bytes_def float_to_unorm8_def clamp_gl_def)

lemma processFrames_replicate:
  assumes "gpu_available env" "0 < n"
  shows "fst (processFrames env (replicate n F) colorType) =
     Inr (replicate n (mask (processFrameAll \<lparr> canvas_width = width F, canvas_height = height F \<rparr> F
                               (if colorType = Green then GREEN_SCREEN_SETTINGS else BLUE_SCREEN_SETTINGS))),
          replicate n (black (processFrameAll \<lparr> canvas_width = width F, canvas_height = height F \<rparr> F
                               (if colorType = Green then GREEN_SCREEN_SETTINGS else BLUE_SCREEN_SETTINGS))))"
proof -
  have ne: "replicate n F \<noteq> []" using assms(2) by simp
  have z: "replicate n F ! 0 = F" using assms(2) by simp
  show ?thesis
    unfolding processFrames_closed[OF assms(1) ne] Let_def z
    by (simp add: map_replicate)
qed

lemma pure_green_frames:
  assumes "0 < w" "0 < h"
  shows "processFrameAll \<lparr> canvas_width = w, canvas_height = h \<rparr> (solid_frame w h [0, 255, 0, a])
           GREEN_SCREEN_SETTINGS
         = \<lparr> mask = solid_frame w h [255, 255, 255, 255], black = solid_frame w h [18, 166, 18, 255] \<rparr>"
  unfolding processFrameAll_def
  by (simp add: render_solid[OF assms] run_fragment_def unorm8_to_float_values maskFragmentShader_def
      green_mask_alpha green_composite fragment_bytes_values fragment_bytes_white)

lemma keyed_green_frames:
  assumes "0 < w" "0 < h" "26 \<le> unat g" "unat g \<le> 249"
  shows "processFrameAll \<lparr> canvas_width = w, canvas_height = h \<rparr> (solid_frame w h [0, g, 0, a])
           GREEN_SCREEN_SETTINGS
         = \<lparr> mask = solid_frame w h [0, 0, 0, 255], black = solid_frame w h [0, 0, 0, 255] \<rparr>"
  unfolding processFrameAll_def
  by (simp add: render_solid[OF assms(1,2)] run_fragment_def unorm8_to_float_values
      maskFragmentShader_def keyed_green_alpha[OF byte_in_value_window[OF assms(3,4)]]
      keyed_green_composite[OF byte_in_value_window[OF assms(3,4)]] fragment_bytes_values)

lemma solid_dims: "width (solid_frame w h px) = w" "height (solid_frame w h px) = h"
  by (simp_all add: solid_frame_def)

lemma full_browser_gpu: "gpu_available full_browser"
  by (simp add: gpu_available_def full_browser_def)

lemma orange_fields:
  "hueTarget orange_key_settings = 30" "hueRange orange_key_settings = 80"
  "satMin orange_key_settings = 15 / 100" "valMin orange_key_settings = 1 / 10"
  "valMax orange_key_settings = 98 / 100" "smoothness orange_key_settings = 12 / 100"
  "spillSuppression orange_key_settings = 7 / 10"
  by (simp_all add: orange_key_settings_def GREEN_SCREEN_SETTINGS_def)

lemma orange_valid: "valid_settings orange_key_settings"
  by (simp add: valid_settings_def orange_fields)

lemma green_hue_120:
  "hsl_h (rgbToHsl (RGB (real (unat (0 :: byte))) (real (unat (200 :: byte))) (real (unat (0 :: byte))))) = 120"
  by (simp add: rgbToHsl_def Let_def)

lemma orange_green_alpha:
  assumes "0 < g"
  shows "mask_alpha orange_key_settings (Vec4 0 g 0 a) = 1"
proof -
  have hsv: "mask_hsv (Vec4 0 g 0 a) = Vec3 (1 / 3) (g / (g + 1 / 10 ^ 10)) g"
    by (simp add: mask_hsv_def green_family_hsv[OF assms])
  have hd: "mask_hueDiff orange_key_settings (Vec4 0 g 0 a) = 90"
    by (simp add: mask_hueDiff_def hsv orange_fields Let_def)
  have hm: "mask_hueMatch orange_key_settings (Vec4 0 g 0 a) = 0"
    by (simp add: mask_hueMatch_def hd orange_fields smoothstep_high)
  show ?thesis
    by (rule mask_alpha_unkeyed) (simp_all add: hm orange_fields)
qed

lemma orange_green_composite:
  "blackBgFragmentShader orange_key_settings (Vec4 0 (40 / 51) 0 1) = Vec4 (14 / 255) (26 / 51) (14 / 255) 1"
proof -
  have al: "blackBg_alpha orange_key_settings (Vec4 0 (40 / 51) 0 1) = 1"
    using orange_green_alpha[of "40 / 51" 1] by (simp add: blackBg_alpha_ref mask_alpha_ref)
  show ?thesis
    unfolding blackBgFragmentShader_def Let_def al suppressSpill_def orange_fields
    by simp
qed

lemma orange_green_bytes:
  "fragment_bytes (Vec4 (14 / 255) (26 / 51) (14 / 255) 1) = [14, 130, 14, 255]"
  by (simp add: fragment_bytes_def float_to_unorm8_def clamp_gl_def)

lemma unorm8_200: "unorm8_to_float 200 = 40 / 51" "unorm8_to_float 0 = 0" "unorm8_to_float 255 = 1"
  by (simp_all add: unorm8_to_float_def)


section \<open>The per-pixel alpha (C2)\<close>

text \<open>
  Claim C2. For every RGB pixel and every Key Settings value, the alpha that the mask
  shader computes and the alpha that the black-background shader computes both equal the
  reference definition \<open>alpha_ref\<close>: the hue difference is the circular distance
  (never more than 180), \<open>hueMatch = 1 - smoothstep(hueRange/2, hueRange, hueDiff)\<close>,
  \<open>satMatch = smoothstep(satMin/2, satMin, sat)\<close>, \<open>valMatch\<close> is 1 exactly when
  \<open>valMin \<le> val \<le> valMax\<close>, the dominance is a smoothstep of the key channel (green below
  180 degrees of \<open>hueTarget\<close>, blue otherwise) minus the larger of the other two, the key
  strength is the product of the four and
  \<open>alpha = 1 - smoothstep(0.3 - smoothness, 0.3 + smoothness, keyStrength)\<close>.
\<close>

theorem alpha_equals_reference:
  "mask_alpha s color = alpha_ref s color \<and> blackBg_alpha s color = alpha_ref s color
   \<and> circular_hue_distance h (hueTarget s) \<le> 180"
  using mask_alpha_ref blackBg_alpha_ref by (simp add: circular_hue_distance_def min_def)


section \<open>The composite pixel (C3)\<close>

text \<open>
  Claim C3 as the specification states it fails on the yellow pixel \<open>(1, 1, 0)\<close> under
  the green preset, where the shader returns \<open>(1, 0.825, 0.035)\<close>. With a share of
  \<open>0.2 \<times> excess\<close> added to each of the two other channels (\<open>composite_ref\<close>) the stated
  formula gives \<open>(1.1, 0.825, 0.1)\<close>; with the share read as \<open>0.2\<close> of the amount removed
  (\<open>composite_uncapped\<close>) it gives \<open>(1.035, 0.825, 0.035)\<close>, above the cap the code
  puts on the red channel.
\<close>

theorem composite_ref_counterexample:
  "blackBgFragmentShader GREEN_SCREEN_SETTINGS (Vec4 1 1 0 1)
     \<noteq> composite_ref GREEN_SCREEN_SETTINGS (Vec4 1 1 0 1) \<and>
   blackBgFragmentShader GREEN_SCREEN_SETTINGS (Vec4 1 1 0 1)
     \<noteq> composite_uncapped GREEN_SCREEN_SETTINGS (Vec4 1 1 0 1)"
  by (simp add: yellow_shader yellow_ref yellow_uncapped)

text \<open>
  Claim C3, amended. For every RGB pixel and every Key Settings value the composite pass
  returns \<open>composite_capped\<close>: with \<open>spillStrength = spillSuppression \<times> (1 - alpha \<times> 0.5)\<close>
  and \<open>excess\<close> the positive part of the key channel minus the average of the other
  two, the key channel loses \<open>excess \<times> spillStrength\<close>, each of the other two channels
  gains \<open>0.2 \<times> excess \<times> spillStrength\<close> and is capped at 1, and the result is multiplied by
  alpha, with an opaque alpha component.
\<close>

theorem composite_equals_capped: "blackBgFragmentShader s color = composite_capped s color"
  unfolding blackBgFragmentShader_def composite_capped_def suppressSpill_def Let_def blackBg_alpha_ref
  by (simp add: mult.assoc mult.commute)


section \<open>The mask is grayscale and opaque (C4)\<close>

text \<open>
  Claim C4. For every input frame and every Key Settings value, every pixel of the frame
  that the mask pass returns has equal red, green and blue bytes, each the 8-bit value of
  the alpha computed for the colour sampled at that pixel, and the alpha byte 255.
\<close>

theorem mask_pixel_grayscale_opaque:
  assumes "x < canvas_width p" "y < canvas_height p"
  shows "pixel_at (renderWithProgram p MaskProgram img s) x y =
           (let alpha = mask_alpha s (texture2D img
                          (v_texCoord (canvas_width p) (canvas_height p) x (canvas_height p - 1 - y)));
                v = float_to_unorm8 alpha
            in [v, v, v, 255])"
  unfolding render_pixel[OF assms]
  by (simp add: fragment_at_def run_fragment_def maskFragmentShader_def fragment_bytes_def
      float_to_unorm8_values Let_def)

theorem mask_pixel_grayscale_opaque_witness:
  "(0::nat) < canvas_width \<lparr> canvas_width = 1, canvas_height = 1 \<rparr> \<and>
   (0::nat) < canvas_height \<lparr> canvas_width = 1, canvas_height = 1 \<rparr> \<and>
   pixel_at (renderWithProgram \<lparr> canvas_width = 1, canvas_height = 1 \<rparr> MaskProgram
               (solid_frame 1 1 [0, 255, 0, 255]) GREEN_SCREEN_SETTINGS) 0 0
     = [255, 255, 255, 255]"
  using mask_pixel_grayscale_opaque[of 0 "\<lparr> canvas_width = 1, canvas_height = 1 \<rparr>" 0
          "solid_frame 1 1 [0, 255, 0, 255]" GREEN_SCREEN_SETTINGS]
  by (simp add: texture2D_solid unorm8_to_float_values green_mask_alpha float_to_unorm8_values)


section \<open>Spill suppression stays in range (C10)\<close>

text \<open>
  Claim C10. For every colour with its three channels in \<open>[0, 1]\<close> and every amount in
  \<open>[0, 1]\<close>, \<open>suppressSpill\<close> returns a colour with its three channels in \<open>[0, 1]\<close>; a
  key channel that starts at or above the average of the other two channels of the input
  stays at or above that average; and for valid Key Settings every composite pixel has
  its three colour channels in \<open>[0, 1]\<close>.
\<close>

theorem suppressSpill_keeps_unit_range:
  assumes "unit_color c" "0 \<le> amount" "amount \<le> 1"
  shows "unit_color (suppressSpill c amount isGreen) \<and>
         ((vx c + vz c) / 2 \<le> vy c \<longrightarrow> (vx c + vz c) / 2 \<le> vy (suppressSpill c amount True)) \<and>
         ((vx c + vy c) / 2 \<le> vz c \<longrightarrow> (vx c + vy c) / 2 \<le> vz (suppressSpill c amount False)) \<and>
         (valid_settings s \<longrightarrow>
            unit_color (Vec3 (qx (blackBgFragmentShader s (Vec4 (vx c) (vy c) (vz c) a)))
                             (qy (blackBgFragmentShader s (Vec4 (vx c) (vy c) (vz c) a)))
                             (qz (blackBgFragmentShader s (Vec4 (vx c) (vy c) (vz c) a)))))"
proof -
  have c': "unit_color (Vec3 (qx (Vec4 (vx c) (vy c) (vz c) a)) (qy (Vec4 (vx c) (vy c) (vz c) a))
                             (qz (Vec4 (vx c) (vy c) (vz c) a)))"
    using assms(1) by (simp add: unit_color_def)
  show ?thesis
    using suppressSpill_unit[OF assms] suppressSpill_key_above_avg[OF assms(2,3), of c]
      blackBg_unit[OF _ c', of s]
    by (auto simp: min_def split: if_splits)
qed

theorem suppressSpill_keeps_unit_range_witness:
  "unit_color (Vec3 1 1 0) \<and> (0::real) \<le> 35 / 100 \<and> (35 / 100 :: real) \<le> 1 \<and>
   valid_settings GREEN_SCREEN_SETTINGS \<and>
   suppressSpill (Vec3 1 1 0) (35 / 100) True = Vec3 1 (33 / 40) (7 / 200) \<and>
   unit_color (suppressSpill (Vec3 1 1 0) (35 / 100) True) \<and>
   (1 + 0) / 2 \<le> vy (suppressSpill (Vec3 1 1 0) (35 / 100) True) \<and>
   unit_color (Vec3 (qx (blackBgFragmentShader GREEN_SCREEN_SETTINGS (Vec4 1 1 0 1)))
                    (qy (blackBgFragmentShader GREEN_SCREEN_SETTINGS (Vec4 1 1 0 1)))
                    (qz (blackBgFragmentShader GREEN_SCREEN_SETTINGS (Vec4 1 1 0 1))))"
  using suppressSpill_keeps_unit_range[of "Vec3 1 1 0" "35 / 100" True GREEN_SCREEN_SETTINGS 1]
  by (simp add: unit_color_def valid_green suppressSpill_def Let_def)



section \<open>Frame counts and index alignment (C5)\<close>

text \<open>
  Claim C5. For every input frame sequence and either colour mode, once the GPU context
  can be created (or when there is no frame, and none is needed), the frame processor
  returns a mask sequence and a composite sequence, both as long as the input, whose
  element \<open>i\<close> is the mask, respectively the composite, that the processor sized to the
  first frame computes from input frame \<open>i\<close> under the preset of the mode.
\<close>

theorem processFrames_index_aligned:
  assumes "gpu_available env \<or> frames = []"
  shows "\<exists>ms bs tr. processFrames env frames colorType = (Inr (ms, bs), tr) \<and>
           length ms = length frames \<and> length bs = length frames \<and>
           (\<forall>i<length frames.
              ms ! i = mask (processFrameAll
                         \<lparr> canvas_width = width (frames ! 0), canvas_height = height (frames ! 0) \<rparr>
                         (frames ! i)
                         (if colorType = Green then GREEN_SCREEN_SETTINGS else BLUE_SCREEN_SETTINGS)) \<and>
              bs ! i = black (processFrameAll
                         \<lparr> canvas_width = width (frames ! 0), canvas_height = height (frames ! 0) \<rparr>
                         (frames ! i)
                         (if colorType = Green then GREEN_SCREEN_SETTINGS else BLUE_SCREEN_SETTINGS)))"
proof (cases "frames = []")
  case True
  then show ?thesis by (simp add: processFrames_def)
next
  case False
  with assms have g: "gpu_available env" by simp
  show ?thesis
    unfolding processFrames_closed[OF g False] Let_def by simp
qed

theorem processFrames_index_aligned_witness:
  "(gpu_available full_browser \<or> [solid_frame 1 1 [0, 255, 0, 255]] = []) \<and>
   (\<exists>ms bs tr. processFrames full_browser [solid_frame 1 1 [0, 255, 0, 255]] Green = (Inr (ms, bs), tr) \<and>
      length ms = 1 \<and> length bs = 1 \<and>
      ms ! 0 = mask (processFrameAll \<lparr> canvas_width = 1, canvas_height = 1 \<rparr>
                       (solid_frame 1 1 [0, 255, 0, 255]) GREEN_SCREEN_SETTINGS) \<and>
      bs ! 0 = black (processFrameAll \<lparr> canvas_width = 1, canvas_height = 1 \<rparr>
                       (solid_frame 1 1 [0, 255, 0, 255]) GREEN_SCREEN_SETTINGS))"
  using processFrames_index_aligned[of full_browser "[solid_frame 1 1 [0, 255, 0, 255]]" Green]
  by (simp add: gpu_available_def full_browser_def solid_frame_def)


section \<open>Empty input (C6)\<close>

text \<open>
  Claim C6. Called with no frame, the frame processor returns two empty sequences and
  its trace is empty: no processor is constructed, whatever the browser grants. Called
  with no frame, the reassembler fails with the error \<open>No frames to process\<close> and its
  trace is empty: the recorder is never started and nothing is produced.
\<close>

theorem empty_input_boundary:
  "processFrames env [] colorType = (Inr ([], []), []) \<and>
   createVideo env now fps [] = (Inl (Error ''No frames to process''), [])"
  by (simp add: processFrames_def createVideo_def)


section \<open>The reassembly schedule (C8)\<close>

text \<open>
  Claim C8. Reassembling \<open>N\<close> frames at rate \<open>fps\<close>, with \<open>startTime\<close> the first clock
  reading: the frames are drawn in the order \<open>0, 1, \<dots>, N - 1\<close>, each once; the sleep after
  frame \<open>k\<close> is the time left until the target \<open>startTime + (k + 1) \<times> (1000 / fps)\<close> of the
  next frame, or zero when the clock has passed it, so no sleep is negative; the targets
  contain no clock reading but \<open>startTime\<close>; and after the last frame a timer of 100 ms
  runs before the recorder is stopped.
\<close>

theorem reassembly_schedule:
  assumes "frames \<noteq> []" "canvas2d_ok env" "0 < fps"
  shows "createVideo env now fps frames =
     (Inr (Blob ''video/webm''),
      RecorderStart #
      concat (map (\<lambda>k. frame_events (has_requestFrame env) (length frames) k
                          (max 0 (emission_target (now 0) fps (k + 1) - now (2 * k + 2))))
                  [0..<length frames])
      @ [ScheduleStop 100, RecorderStop])
   \<and> drawn_frames (snd (createVideo env now fps frames)) = [0..<length frames]
   \<and> sleeps (snd (createVideo env now fps frames))
       = map (\<lambda>k. max 0 (now 0 + real (k + 1) * (1000 / fps) - now (2 * k + 2))) [0..<length frames]
   \<and> (\<forall>d \<in> set (sleeps (snd (createVideo env now fps frames))). 0 \<le> d)"
proof -
  note c = createVideo_closed[OF assms(1,2), of now fps]
  have d: "drawn_frames (snd (createVideo env now fps frames)) = [0..<length frames]"
    unfolding c snd_conv drawn_frames_ends drawn_frames_append drawn_frames_concat by simp
  have s: "sleeps (snd (createVideo env now fps frames))
       = map (\<lambda>k. max 0 (now 0 + real (k + 1) * (1000 / fps) - now (2 * k + 2))) [0..<length frames]"
    unfolding c snd_conv sleeps_ends sleeps_append sleeps_concat
    by (simp add: emission_target_def)
  have "\<forall>d \<in> set (sleeps (snd (createVideo env now fps frames))). 0 \<le> d"
    unfolding s by auto
  with c d s show ?thesis by blast
qed

theorem reassembly_schedule_witness:
  "[solid_frame 1 1 [0, 255, 0, 255], solid_frame 1 1 [0, 255, 0, 255]] \<noteq> [] \<and>
   canvas2d_ok full_browser \<and> (0::real) < 30 \<and>
   snd (createVideo full_browser sample_clock 30
          [solid_frame 1 1 [0, 255, 0, 255], solid_frame 1 1 [0, 255, 0, 255]])
     = [RecorderStart,
        PutImageData 0, RequestFrame, VideoProgress 1 2, ScheduleNextFrame (40 / 3),
        PutImageData 1, RequestFrame, VideoProgress 2 2, ScheduleNextFrame 0,
        ScheduleStop 100, RecorderStop]"
  using reassembly_schedule[of "[solid_frame 1 1 [0, 255, 0, 255], solid_frame 1 1 [0, 255, 0, 255]]"
          full_browser 30 sample_clock]
  by (simp add: full_browser_def frame_events_def emission_target_def sample_clock_def)


section \<open>Frame extraction (C9)\<close>

text \<open>
  Claim C9 as the specification states it, with \<open>floor(d \<times> fps)\<close> the floor of the exact
  product, fails. For the duration \<open>1080863910568919 / 2 ^ 53\<close> (the double nearest to 0.12)
  at 25 frames per second the exact product is just below 3, with floor 2; the code
  multiplies in double precision, the product rounds to 3.0, and three frames are
  extracted.
\<close>

theorem extractFrames_count_counterexample:
  "duration short_video = Seconds (1080863910568919 / 2 ^ 53) \<and>
   \<lfloor>(1080863910568919 / 2 ^ 53 :: real) * 25\<rfloor> = 2 \<and>
   frames_returned (extractFrames full_browser 25 short_video) = Some 3"
proof -
  have d: "duration short_video = Seconds (1080863910568919 / 2 ^ 53)"
    by (simp add: short_video_def)
  have c: "canvas2d_ok full_browser" by (simp add: full_browser_def)
  have le: "js_times (1080863910568919 / 2 ^ 53) 25 \<le> 2 ^ 53"
    unfolding js_times_example by simp
  have "frames_returned (extractFrames full_browser 25 short_video) = Some 3"
    unfolding extractFrames_closed[OF c d le] js_times_example
    by (simp add: frames_returned_def)
  moreover have "\<lfloor>(1080863910568919 / 2 ^ 53 :: real) * 25\<rfloor> = 2" by simp
  ultimately show ?thesis using d by simp
qed

text \<open>
  Claim C9, amended. With a 2D canvas context and a positive rate \<open>fps\<close>, extraction from
  a source of duration \<open>d\<close> returns \<open>\<lfloor>d \<otimes> fps\<rfloor>\<close> frames (none when that is not positive),
  where \<open>\<otimes>\<close> is the product rounded to double precision, which can lie one above the
  floor of the exact product, as long as that is at most \<open>2 ^ 53\<close>; frame \<open>i\<close> is what the
  source displays once sought to the time \<open>i \<otimes> (1 \<oslash> fps)\<close>, the rounded product of the
  index and the rounded quotient \<open>1 / fps\<close>; it seeks in the order of the indices, to
  times that never decrease, and reports the progress \<open>(i + 1, totalFrames)\<close> after each
  frame; for a duration of 0 or an unknown duration (\<open>NaN\<close>) it returns the empty sequence
  and no error.
\<close>

theorem extractFrames_sequence:
  assumes "canvas2d_ok env" "0 < fps"
  shows "(\<forall>d. duration v = Seconds d \<longrightarrow> js_times d fps \<le> 2 ^ 53 \<longrightarrow>
            extractFrames env fps v =
              Some (Inr (map (\<lambda>i. capture v (js_times (real i) (js_divide 1 fps)))
                             [0..<nat \<lfloor>js_times d fps\<rfloor>]),
                    concat (map (\<lambda>i. [SeekTo (js_times (real i) (js_divide 1 fps)),
                                       ExtractProgress (i + 1) (Count \<lfloor>js_times d fps\<rfloor>)])
                                [0..<nat \<lfloor>js_times d fps\<rfloor>])))
       \<and> (duration v = Seconds 0 \<or> duration v = DurationNaN \<longrightarrow>
            extractFrames env fps v = Some (Inr [], []))
       \<and> (\<forall>i j. i \<le> j \<longrightarrow>
            js_times (real i) (js_divide 1 fps) \<le> js_times (real j) (js_divide 1 fps))"
proof -
  have z: "js_times 0 fps = 0" by (simp add: js_times_def to_double_small)
  have b: "extractFrames env fps v = Some (Inr [], [])" if "duration v = Seconds 0"
    using extractFrames_closed[OF assms(1) that, of fps] by (simp add: z)
  have c: "extractFrames env fps v = Some (Inr [], [])" if "duration v = DurationNaN"
    using assms(1) that
    by (simp add: extractFrames_def Let_def totalFrames_of_def extractFrames_loop_nan)
  show ?thesis
    using extractFrames_closed[OF assms(1)] b c seek_times_mono[OF assms(2)] by blast
qed

theorem extractFrames_sequence_witness:
  "canvas2d_ok full_browser \<and> (0::real) < 2 \<and> duration sample_video = Seconds 1 \<and>
   js_times 1 2 \<le> 2 ^ 53 \<and>
   extractFrames full_browser 2 sample_video
     = Some (Inr [capture sample_video 0, capture sample_video (1 / 2)],
             [SeekTo 0, ExtractProgress 1 (Count 2), SeekTo (1 / 2), ExtractProgress 2 (Count 2)])"
proof -
  have t: "js_times 1 2 = 2" "js_divide 1 2 = 1 / 2" "js_times 0 (1 / 2) = 0"
    "js_times 1 (1 / 2) = 1 / 2"
    by (simp_all add: js_times_def js_divide_def to_double_small)
  show ?thesis
    using extractFrames_sequence[of full_browser 2 sample_video]
    by (simp add: full_browser_def sample_video_def upt_two t)
qed


section \<open>Ten frames of pure green (C1)\<close>

text \<open>
  Claim C1 as the specification states it fails. Ten frames of one pixel of pure green
  \<open>(0, 255, 0)\<close>, processed with the green preset, give ten white mask frames and ten
  composite frames of the colour \<open>(18, 166, 18)\<close>, not ten black frames of each: the
  value of pure green is 1.0, above \<open>valMax = 0.98\<close>, so \<open>valMatch\<close> is 0 and alpha is 1.
\<close>

theorem pure_green_counterexample:
  "fst (processFrames full_browser (replicate 10 (solid_frame 1 1 [0, 255, 0, 255])) Green)
     = Inr (replicate 10 (solid_frame 1 1 [255, 255, 255, 255]),
            replicate 10 (solid_frame 1 1 [18, 166, 18, 255])) \<and>
   fst (processFrames full_browser (replicate 10 (solid_frame 1 1 [0, 255, 0, 255])) Green)
     \<noteq> Inr (replicate 10 (solid_frame 1 1 [0, 0, 0, 255]),
             replicate 10 (solid_frame 1 1 [0, 0, 0, 255]))"
proof -
  have e: "fst (processFrames full_browser (replicate 10 (solid_frame 1 1 [0, 255, 0, 255])) Green)
     = Inr (replicate 10 (solid_frame 1 1 [255, 255, 255, 255]),
            replicate 10 (solid_frame 1 1 [18, 166, 18, 255]))"
    by (simp add: processFrames_replicate full_browser_gpu solid_dims pure_green_frames)
  have ne: "solid_frame 1 1 [255, 255, 255, 255] \<noteq> solid_frame 1 1 [0, 0, 0, 255]"
    by (simp add: solid_frame_def)
  show ?thesis unfolding e using ne by simp
qed

text \<open>
  Claim C1, amended. For a run of ten frames of any size, each filled with pure green
  \<open>(0, 255, 0)\<close>, processed with the green preset on a browser that grants the GPU
  context, every mask frame is white and every composite frame is filled with the
  spill-suppressed green \<open>(18, 166, 18)\<close>, all opaque. For ten frames filled with a green
  \<open>(0, G, 0)\<close> whose value \<open>G / 255\<close> lies in the window \<open>[valMin, valMax]\<close> of the preset,
  that is \<open>26 \<le> G \<le> 249\<close>, every mask frame and every composite frame is black and
  opaque.
\<close>

theorem pure_green_run:
  assumes "gpu_available env" "0 < w" "0 < h"
  shows "fst (processFrames env (replicate 10 (solid_frame w h [0, 255, 0, a])) Green)
           = Inr (replicate 10 (solid_frame w h [255, 255, 255, 255]),
                  replicate 10 (solid_frame w h [18, 166, 18, 255]))
       \<and> (26 \<le> unat g \<and> unat g \<le> 249 \<longrightarrow>
            fst (processFrames env (replicate 10 (solid_frame w h [0, g, 0, a])) Green)
              = Inr (replicate 10 (solid_frame w h [0, 0, 0, 255]),
                     replicate 10 (solid_frame w h [0, 0, 0, 255])))"
  using assms
  by (simp add: processFrames_replicate solid_dims pure_green_frames keyed_green_frames)

theorem pure_green_run_witness:
  "gpu_available full_browser \<and> (0::nat) < 1 \<and> 26 \<le> unat (200 :: byte) \<and> unat (200 :: byte) \<le> 249 \<and>
   fst (processFrames full_browser (replicate 10 (solid_frame 1 1 [0, 255, 0, 255])) Green)
     = Inr (replicate 10 (solid_frame 1 1 [255, 255, 255, 255]),
            replicate 10 (solid_frame 1 1 [18, 166, 18, 255])) \<and>
   fst (processFrames full_browser (replicate 10 (solid_frame 1 1 [0, 200, 0, 255])) Green)
     = Inr (replicate 10 (solid_frame 1 1 [0, 0, 0, 255]),
            replicate 10 (solid_frame 1 1 [0, 0, 0, 255]))"
  using pure_green_run[of full_browser 1 1 255 200] full_browser_gpu
  by simp


section \<open>A colour a quarter turn away from the key hue (C7)\<close>

text \<open>
  Claim C7 as the specification states it, for a key hue in general, fails. Under the
  valid settings \<open>orange_key_settings\<close> (the green preset with \<open>hueTarget = 30\<close>) the green
  \<open>(0, 200, 0)\<close> has the hue \<open>120 = hueTarget + 90\<close>; the hue is outside the window, so alpha
  is 1 and the mask is white, but green is the key channel and exceeds the average of
  red and blue, so the spill suppression applies: the composite of a frame of that colour
  is filled with \<open>(14, 130, 14)\<close>, not with the colour of the input.
\<close>

theorem orthogonal_hue_counterexample:
  "valid_settings orange_key_settings \<and>
   hsl_h (rgbToHsl (RGB (real (unat (0 :: byte))) (real (unat (200 :: byte))) (real (unat (0 :: byte)))))
     = hueTarget orange_key_settings + 90 \<and>
   black (processFrameAll \<lparr> canvas_width = 1, canvas_height = 1 \<rparr>
            (solid_frame 1 1 [0, 200, 0, 255]) orange_key_settings)
     = solid_frame 1 1 [14, 130, 14, 255] \<and>
   solid_frame 1 1 [14, 130, 14, 255] \<noteq> solid_frame 1 1 [0, 200, 0, 255]"
proof -
  have b: "black (processFrameAll \<lparr> canvas_width = 1, canvas_height = 1 \<rparr>
            (solid_frame 1 1 [0, 200, 0, 255]) orange_key_settings)
     = solid_frame 1 1 [14, 130, 14, 255]"
    unfolding processFrameAll_def
    by (simp add: render_solid run_fragment_def unorm8_200 orange_green_composite orange_green_bytes)
  have ne: "solid_frame 1 1 [14, 130, 14, 255] \<noteq> solid_frame 1 1 [0, 200, 0, 255]"
    by (simp add: solid_frame_def)
  show ?thesis
    using orange_valid green_hue_120 b ne by (simp add: orange_fields)
qed

text \<open>
  Claim C7, amended. For a frame filled with one colour whose hue, as \<open>rgbToHsl\<close> computes
  it, is \<open>hueTarget + 90\<close> degrees under the green or the blue preset (hue 210,
  respectively 330), whatever its saturation and value, the mask frame is white and the
  composite frame is filled with the colour of the input, unchanged, both opaque.
\<close>

theorem orthogonal_hue_untouched:
  assumes wh: "0 < w" "0 < h"
    and s: "s = GREEN_SCREEN_SETTINGS \<or> s = BLUE_SCREEN_SETTINGS"
    and hue: "hsl_h (rgbToHsl (RGB (real (unat r)) (real (unat g)) (real (unat b)))) = hueTarget s + 90"
  shows "processFrameAll \<lparr> canvas_width = w, canvas_height = h \<rparr> (solid_frame w h [r, g, b, a]) s
         = \<lparr> mask = solid_frame w h [255, 255, 255, 255], black = solid_frame w h [r, g, b, 255] \<rparr>"
proof -
  let ?c = "Vec4 (unorm8_to_float r) (unorm8_to_float g) (unorm8_to_float b) (unorm8_to_float a)"
  have px: "maskFragmentShader s ?c = Vec4 1 1 1 1 \<and>
            blackBgFragmentShader s ?c = Vec4 (unorm8_to_float r) (unorm8_to_float g) (unorm8_to_float b) 1"
  proof (cases "s = GREEN_SCREEN_SETTINGS")
    case True
    with hue have "hsl_h (rgbToHsl (RGB (real (unat r)) (real (unat g)) (real (unat b)))) = 210"
      by (simp add: preset_fields)
    from hue_210[OF this] have "unorm8_to_float r < unorm8_to_float b"
      "2 * unorm8_to_float g = unorm8_to_float r + unorm8_to_float b"
      unfolding unorm8_to_float_def by (simp_all add: divide_strict_right_mono field_simps)
    from green_orthogonal_pixel[OF this unorm8_le_1] show ?thesis using True by simp
  next
    case False
    with s have B: "s = BLUE_SCREEN_SETTINGS" by simp
    with hue have "hsl_h (rgbToHsl (RGB (real (unat r)) (real (unat g)) (real (unat b)))) = 330"
      by (simp add: preset_fields)
    from hue_330[OF this] have "unorm8_to_float g < unorm8_to_float r"
      "2 * unorm8_to_float b = unorm8_to_float r + unorm8_to_float g"
      unfolding unorm8_to_float_def by (simp_all add: divide_strict_right_mono field_simps)
    from blue_orthogonal_pixel[OF this unorm8_le_1] show ?thesis using B by simp
  qed
  show ?thesis
    unfolding processFrameAll_def
    by (simp add: render_solid[OF wh] run_fragment_def px fragment_bytes_of_bytes fragment_bytes_white)
qed

theorem orthogonal_hue_untouched_witness:
  "(0::nat) < 2 \<and> (0::nat) < 1 \<and>
   (GREEN_SCREEN_SETTINGS = GREEN_SCREEN_SETTINGS \<or> GREEN_SCREEN_SETTINGS = BLUE_SCREEN_SETTINGS) \<and>
   hsl_h (rgbToHsl (RGB (real (unat (0 :: byte))) (real (unat (100 :: byte))) (real (unat (200 :: byte)))))
     = hueTarget GREEN_SCREEN_SETTINGS + 90 \<and>
   processFrameAll \<lparr> canvas_width = 2, canvas_height = 1 \<rparr> (solid_frame 2 1 [0, 100, 200, 255])
       GREEN_SCREEN_SETTINGS
     = \<lparr> mask = solid_frame 2 1 [255, 255, 255, 255], black = solid_frame 2 1 [0, 100, 200, 255] \<rparr>"
proof -
  have hue: "hsl_h (rgbToHsl (RGB (real (unat (0 :: byte))) (real (unat (100 :: byte))) (real (unat (200 :: byte)))))
     = hueTarget GREEN_SCREEN_SETTINGS + 90"
    by (simp add: rgbToHsl_def Let_def preset_fields)
  show ?thesis
    using orthogonal_hue_untouched[of 2 1 GREEN_SCREEN_SETTINGS 0 100 200 255] hue by simp
qed

end
